theory Spec2Isabelle
  imports Complex_Main
begin

section \<open>Numbers and vectors\<close>

text \<open>
  The program computes with JavaScript numbers. They are modelled as the real numbers:
  \<open>Math.sqrt\<close> is \<^const>\<open>sqrt\<close>, \<open>Math.hypot a b\<close> is \<open>sqrt (a * a + b * b)\<close>,
  \<open>Math.min\<close>, \<open>Math.max\<close> and \<open>Math.abs\<close> are \<^const>\<open>min\<close>, \<^const>\<open>max\<close> and
  \<^const>\<open>abs\<close>. Rounding, overflow and NaN are outside this model; the constraint builder
  alone is modelled a second time with rounding, further down. Every division of the
  modelled code is guarded by the source against a zero divisor, so the convention
  \<open>a / 0 = 0\<close> of HOL is never consulted.
\<close>

record Vector2 =
  x :: real
  y :: real

definition zero :: Vector2 where
  "zero = \<lparr>x = 0, y = 0\<rparr>"

definition add :: "Vector2 \<Rightarrow> Vector2 \<Rightarrow> Vector2" where
  "add this vector = \<lparr>x = x this + x vector, y = y this + y vector\<rparr>"

definition sub :: "Vector2 \<Rightarrow> Vector2 \<Rightarrow> Vector2" where
  "sub this vector = \<lparr>x = x this - x vector, y = y this - y vector\<rparr>"

definition mult :: "Vector2 \<Rightarrow> real \<Rightarrow> Vector2" where
  "mult this scalar = \<lparr>x = x this * scalar, y = y this * scalar\<rparr>"

definition hypot :: "real \<Rightarrow> real \<Rightarrow> real" where
  "hypot a b = sqrt (a * a + b * b)"

definition mag :: "Vector2 \<Rightarrow> real" where
  "mag this = hypot (x this) (y this)"

definition normalize_v :: "Vector2 \<Rightarrow> Vector2" where
  "normalize_v this =
     (let magnitude = mag this
      in if magnitude = 0 then zero else mult this (1 / magnitude))"

definition dist_v :: "Vector2 \<Rightarrow> Vector2 \<Rightarrow> real" where
  "dist_v this vector = mag (sub this vector)"

definition dot :: "Vector2 \<Rightarrow> Vector2 \<Rightarrow> real" where
  "dot this vector = x this * x vector + y this * y vector"

definition limit :: "Vector2 \<Rightarrow> real \<Rightarrow> Vector2" where
  "limit this mx =
     (let magnitude = mag this
      in if magnitude \<le> mx then this else mult (normalize_v this) mx)"

definition EPSILON :: real where
  "EPSILON = 1 / 100000"

definition absSq :: "Vector2 \<Rightarrow> real" where
  "absSq v = x v * x v + y v * y v"

definition det :: "Vector2 \<Rightarrow> Vector2 \<Rightarrow> real" where
  "det a b = x a * y b - y a * x b"

definition perp :: "Vector2 \<Rightarrow> Vector2" where
  "perp v = \<lparr>x = - y v, y = x v\<rparr>"

definition ensureDirection :: "Vector2 \<Rightarrow> Vector2" where
  "ensureDirection dir =
     (if absSq dir \<le> EPSILON then \<lparr>x = 1, y = 0\<rparr> else normalize_v dir)"

section \<open>Data model of the ORCA engine\<close>

text \<open>
  The interfaces of the source become records. The field \<open>id\<close> of an agent is called
  \<open>agent_id\<close>, the pair of anchors is a pair, and the heading index, which the source
  types as \<open>0 | 1\<close>, is a two-valued datatype. An array index is a natural number.
\<close>

record OrcaLine =
  point :: Vector2
  direction :: Vector2

record NeighborRef =
  index :: nat
  distSq :: real

datatype HeadingIndex = Heading0 | Heading1

record RVOAgent =
  agent_id :: string
  position :: Vector2
  velocity :: Vector2
  preferredVelocity :: Vector2
  radius :: real
  preferredSpeed :: real
  maxSpeed :: real
  anchors :: "Vector2 \<times> Vector2"
  headingIndex :: HeadingIndex
  color :: string

text \<open>
  Reading a property of \<open>undefined\<close> (an array read out of range followed by a field
  access) raises a \<open>TypeError\<close> in the source; it is the only way the modelled code can
  fail, and the model makes it a value.
\<close>

datatype error = TypeError

section \<open>The incremental linear program\<close>

text \<open>
  The loop of \<open>linearProgram1\<close> over the earlier lines \<open>lines[0..lineNo-1]\<close>. It walks the
  earlier lines in order, carrying the interval \<open>(tLeft, tRight)\<close>; \<open>None\<close> is the early
  \<open>return { success: false, result }\<close>.
\<close>

fun lp1Clip :: "OrcaLine \<Rightarrow> OrcaLine list \<Rightarrow> real \<Rightarrow> real \<Rightarrow> (real \<times> real) option" where
  "lp1Clip line [] tLeft tRight = Some (tLeft, tRight)"
| "lp1Clip line (li # rest) tLeft tRight =
     (let denominator = det (direction line) (direction li);
          numerator = det (direction li) (sub (point line) (point li))
      in if \<bar>denominator\<bar> \<le> EPSILON then
           (if numerator < 0 then None else lp1Clip line rest tLeft tRight)
         else
           (let t = numerator / denominator;
                tRight' = (if denominator \<ge> 0 then min tRight t else tRight);
                tLeft' = (if denominator \<ge> 0 then tLeft else max tLeft t)
            in if tLeft' > tRight' then None else lp1Clip line rest tLeft' tRight'))"

definition linearProgram1 ::
  "OrcaLine list \<Rightarrow> nat \<Rightarrow> real \<Rightarrow> Vector2 \<Rightarrow> bool \<Rightarrow> Vector2 \<Rightarrow> error + (bool \<times> Vector2)" where
  "linearProgram1 lines lineNo rad optVelocity directionOpt result =
     (if lineNo \<ge> length lines then Inl TypeError
      else
        (let line = lines ! lineNo;
             dotProduct = dot (point line) (direction line);
             discriminant = dotProduct * dotProduct + rad * rad - absSq (point line)
         in if discriminant < 0 then Inr (False, result)
            else
              (let sqrtDisc = sqrt discriminant;
                   tLeft = - dotProduct - sqrtDisc;
                   tRight = - dotProduct + sqrtDisc
               in case lp1Clip line (take lineNo lines) tLeft tRight of
                    None \<Rightarrow> Inr (False, result)
                  | Some (tLeft, tRight) \<Rightarrow>
                      if directionOpt then
                        (if dot optVelocity (direction line) > 0
                         then Inr (True, add (point line) (mult (direction line) tRight))
                         else Inr (True, add (point line) (mult (direction line) tLeft)))
                      else
                        (let t = dot (direction line) (sub optVelocity (point line))
                         in if t < tLeft
                            then Inr (True, add (point line) (mult (direction line) tLeft))
                            else if t > tRight
                            then Inr (True, add (point line) (mult (direction line) tRight))
                            else Inr (True, add (point line) (mult (direction line) t))))))"

text \<open>The loop of \<open>linearProgram2\<close> from index \<open>i\<close> on, with the current candidate.\<close>

function lp2Loop ::
  "OrcaLine list \<Rightarrow> real \<Rightarrow> Vector2 \<Rightarrow> bool \<Rightarrow> nat \<Rightarrow> Vector2 \<Rightarrow> error + (nat \<times> Vector2)" where
  "lp2Loop lines rad optVelocity directionOpt i result =
     (if i < length lines then
        (if det (direction (lines ! i)) (sub (point (lines ! i)) result) > 0 then
           (let tempResult = result
            in case linearProgram1 lines i rad optVelocity directionOpt result of
                 Inl e \<Rightarrow> Inl e
               | Inr (success, result') \<Rightarrow>
                   if \<not> success then Inr (i, tempResult)
                   else lp2Loop lines rad optVelocity directionOpt (i + 1) result')
         else lp2Loop lines rad optVelocity directionOpt (i + 1) result)
      else Inr (length lines, result))"
  by pat_completeness auto
termination
  by (relation "measure (\<lambda>(lines, rad, optVelocity, directionOpt, i, result). length lines - i)") auto

definition linearProgram2 ::
  "OrcaLine list \<Rightarrow> real \<Rightarrow> Vector2 \<Rightarrow> bool \<Rightarrow> error + (nat \<times> Vector2)" where
  "linearProgram2 lines rad optVelocity directionOpt =
     (let result =
            (if directionOpt then mult optVelocity rad
             else if absSq optVelocity > rad * rad then mult (normalize_v optVelocity) rad
             else optVelocity)
      in lp2Loop lines rad optVelocity directionOpt 0 result)"

text \<open>
  The body of the inner loop of \<open>linearProgram3\<close>: the line \<open>line\<close> is paired with an
  earlier line \<open>other\<close>; \<open>None\<close> is the \<open>continue\<close> of the source.
\<close>

definition projectLine :: "OrcaLine \<Rightarrow> OrcaLine \<Rightarrow> OrcaLine option" where
  "projectLine line other =
     (let determinant = det (direction line) (direction other)
      in if \<bar>determinant\<bar> \<le> EPSILON then
           (if dot (direction line) (direction other) > 0 then None
            else Some \<lparr>point = mult (add (point line) (point other)) 0.5,
                       direction = normalize_v (sub (direction other) (direction line))\<rparr>)
         else
           Some \<lparr>point = add (point line)
                              (mult (direction line)
                                 (det (direction other) (sub (point line) (point other))
                                    / determinant)),
                   direction = normalize_v (sub (direction other) (direction line))\<rparr>)"

definition buildProjLines :: "OrcaLine list \<Rightarrow> nat \<Rightarrow> nat \<Rightarrow> OrcaLine list" where
  "buildProjLines lines numObstLines i =
     fold (\<lambda>j projLines.
             case projectLine (lines ! i) (lines ! j) of
               None \<Rightarrow> projLines
             | Some l \<Rightarrow> projLines @ [l])
          [numObstLines ..< i]
          (map (\<lambda>l. \<lparr>point = point l, direction = direction l\<rparr>) (take numObstLines lines))"

function lp3Loop ::
  "OrcaLine list \<Rightarrow> nat \<Rightarrow> real \<Rightarrow> nat \<Rightarrow> Vector2 \<Rightarrow> real \<Rightarrow> error + Vector2" where
  "lp3Loop lines numObstLines rad i result distance =
     (if i < length lines then
        (let line = lines ! i;
             detValue = det (direction line) (sub (point line) result)
         in if detValue > distance then
              (let projLines = buildProjLines lines numObstLines i;
                   tempResult = result
               in case linearProgram2 projLines rad (perp (direction line)) True of
                    Inl e \<Rightarrow> Inl e
                  | Inr (lineFail, lp2Result) \<Rightarrow>
                      (let result' = (if lineFail < length projLines then tempResult
                                      else lp2Result)
                       in lp3Loop lines numObstLines rad (i + 1) result'
                            (det (direction line) (sub (point line) result'))))
            else lp3Loop lines numObstLines rad (i + 1) result distance)
      else Inr result)"
  by pat_completeness auto
termination
  by (relation "measure (\<lambda>(lines, numObstLines, rad, i, result, distance). length lines - i)")
     auto

definition linearProgram3 ::
  "OrcaLine list \<Rightarrow> nat \<Rightarrow> nat \<Rightarrow> real \<Rightarrow> Vector2 \<Rightarrow> error + Vector2" where
  "linearProgram3 lines numObstLines beginLine rad initialResult =
     lp3Loop lines numObstLines rad beginLine initialResult 0"

section \<open>The ORCA constraint builder\<close>

text \<open>
  The blocking direction and the adjustment \<open>u\<close> that \<open>appendAgentConstraint\<close> computes
  before it pushes the line.
\<close>

definition constraintParts ::
  "RVOAgent \<Rightarrow> RVOAgent \<Rightarrow> real \<Rightarrow> real \<Rightarrow> Vector2 \<times> Vector2" where
  "constraintParts agent other invTimeHorizon dt =
     (let relativePosition = sub (position other) (position agent);
          relativeVelocity = sub (velocity agent) (velocity other);
          dSq = absSq relativePosition;
          combinedRadius = radius agent + radius other;
          combinedRadiusSq = combinedRadius * combinedRadius
      in if dSq > combinedRadiusSq then
           (let w = sub relativeVelocity (mult relativePosition invTimeHorizon);
                wLengthSq = absSq w;
                dotProduct = dot w relativePosition
            in if dotProduct < 0 \<and> dotProduct * dotProduct > combinedRadiusSq * wLengthSq then
                 (let wLength = sqrt wLengthSq;
                      unitW = (if wLength > EPSILON then mult w (1 / wLength)
                               else normalize_v relativePosition)
                  in (perp unitW, mult unitW (combinedRadius * invTimeHorizon - wLength)))
               else
                 (let leg = sqrt (max 0 (dSq - combinedRadiusSq));
                      dir0 = (if det relativePosition w > 0 then
                                mult \<lparr>x = x relativePosition * leg
                                            - y relativePosition * combinedRadius,
                                       y = x relativePosition * combinedRadius
                                            + y relativePosition * leg\<rparr> (1 / dSq)
                              else
                                mult \<lparr>x = - x relativePosition * leg
                                            - y relativePosition * combinedRadius,
                                       y = x relativePosition * combinedRadius
                                            - y relativePosition * leg\<rparr> (1 / dSq));
                      dir1 = normalize_v dir0
                  in (dir1, sub (mult dir1 (dot relativeVelocity dir1)) relativeVelocity)))
         else
           (let invTimeStep = (if dt > 0 then 1 / dt else 0);
                w = sub relativeVelocity (mult relativePosition invTimeStep);
                wLength = hypot (x w) (y w);
                unitW = (if wLength > EPSILON then mult w (1 / wLength)
                         else normalize_v relativePosition)
            in (perp unitW, mult unitW (combinedRadius * invTimeStep - wLength))))"

definition appendAgentConstraint ::
  "RVOAgent \<Rightarrow> RVOAgent \<Rightarrow> OrcaLine list \<Rightarrow> real \<Rightarrow> real \<Rightarrow> OrcaLine list" where
  "appendAgentConstraint agent other lines invTimeHorizon dt =
     (case constraintParts agent other invTimeHorizon dt of
        (dir, u) \<Rightarrow>
          lines @ [\<lparr>point = add (velocity agent) (mult u 0.5),
                    direction = ensureDirection dir\<rparr>])"

section \<open>The constraint builder in double arithmetic\<close>

text \<open>
  What the source computes are IEEE 754 doubles. For the length of a constraint direction
  the difference from the real numbers matters, so the constraint builder is modelled a
  second time with every arithmetic operation rounded. A double is a real \<open>m * 2^e\<close>
  with an integer \<open>|m| < 2^53\<close>; \<open>fl\<close> rounds a real to the nearest double, a tie to the
  even mantissa, as \<open>+\<close>, \<open>-\<close>, \<open>*\<close>, \<open>/\<close> and \<open>Math.sqrt\<close> do. The exponent is not
  bounded: overflow, underflow, infinities, NaN and the sign of zero stay outside the
  model.

  \<open>expo v\<close> is the binade of \<open>v\<close> (\<open>2^expo \<le> |v| < 2^(expo + 1)\<close>), \<open>ulp v\<close> the distance
  of neighboring doubles there, \<open>rne\<close> rounds to the nearest integer, a tie to the even
  one, and \<open>unitRoundoff\<close> is the largest relative error of \<open>fl\<close>.
\<close>

definition expo :: "real \<Rightarrow> int" where
  "expo v = \<lfloor>log 2 \<bar>v\<bar>\<rfloor>"

definition ulp :: "real \<Rightarrow> real" where
  "ulp v = 2 powr (of_int (expo v) - 52)"

definition rne :: "real \<Rightarrow> int" where
  "rne v = (let f = \<lfloor>v\<rfloor>
            in if v - of_int f < 1 / 2 then f
               else if v - of_int f > 1 / 2 then f + 1
               else if even f then f else f + 1)"

definition fl :: "real \<Rightarrow> real" where
  "fl v = (if v = 0 then 0 else of_int (rne (v / ulp v)) * ulp v)"

definition unitRoundoff :: real where
  "unitRoundoff = 1 / 2 ^ 53"

text \<open>
  The accuracy of \<open>Math.hypot\<close> is left to the implementation by the language, so it is
  a parameter \<open>hyp\<close> of the functions that call it. \<open>accurateHypot\<close> asks for a relative
  error of at most \<open>2^-50\<close>; the correctly rounded \<open>hypotRounded\<close> is one such function.
\<close>

definition accurateHypot :: "(real \<Rightarrow> real \<Rightarrow> real) \<Rightarrow> bool" where
  "accurateHypot hyp \<longleftrightarrow>
     (\<forall>a b. \<bar>hyp a b - sqrt (a * a + b * b)\<bar> \<le> sqrt (a * a + b * b) / 2 ^ 50)"

definition hypotRounded :: "real \<Rightarrow> real \<Rightarrow> real" where
  "hypotRounded a b = fl (sqrt (a * a + b * b))"

text \<open>The methods of \<open>Vector2\<close> and the helpers of the engine, each operation rounded.\<close>

definition add_fl :: "Vector2 \<Rightarrow> Vector2 \<Rightarrow> Vector2" where
  "add_fl this vector = \<lparr>x = fl (x this + x vector), y = fl (y this + y vector)\<rparr>"

definition sub_fl :: "Vector2 \<Rightarrow> Vector2 \<Rightarrow> Vector2" where
  "sub_fl this vector = \<lparr>x = fl (x this - x vector), y = fl (y this - y vector)\<rparr>"

definition mult_fl :: "Vector2 \<Rightarrow> real \<Rightarrow> Vector2" where
  "mult_fl this scalar = \<lparr>x = fl (x this * scalar), y = fl (y this * scalar)\<rparr>"

definition mag_fl :: "(real \<Rightarrow> real \<Rightarrow> real) \<Rightarrow> Vector2 \<Rightarrow> real" where
  "mag_fl hyp this = hyp (x this) (y this)"

definition normalize_fl :: "(real \<Rightarrow> real \<Rightarrow> real) \<Rightarrow> Vector2 \<Rightarrow> Vector2" where
  "normalize_fl hyp this =
     (let magnitude = mag_fl hyp this
      in if magnitude = 0 then zero else mult_fl this (fl (1 / magnitude)))"

definition dot_fl :: "Vector2 \<Rightarrow> Vector2 \<Rightarrow> real" where
  "dot_fl this vector = fl (fl (x this * x vector) + fl (y this * y vector))"

text \<open>The literal \<open>1e-5\<close> denotes the double nearest to it.\<close>

definition EPSILON_fl :: real where
  "EPSILON_fl = fl (1 / 100000)"

definition absSq_fl :: "Vector2 \<Rightarrow> real" where
  "absSq_fl v = fl (fl (x v * x v) + fl (y v * y v))"

definition det_fl :: "Vector2 \<Rightarrow> Vector2 \<Rightarrow> real" where
  "det_fl a b = fl (fl (x a * y b) - fl (y a * x b))"

definition ensureDirection_fl :: "(real \<Rightarrow> real \<Rightarrow> real) \<Rightarrow> Vector2 \<Rightarrow> Vector2" where
  "ensureDirection_fl hyp dir =
     (if absSq_fl dir \<le> EPSILON_fl then \<lparr>x = 1, y = 0\<rparr> else normalize_fl hyp dir)"

text \<open>\<open>appendAgentConstraint\<close> as above, operation by operation.\<close>

definition constraintParts_fl ::
  "(real \<Rightarrow> real \<Rightarrow> real) \<Rightarrow> RVOAgent \<Rightarrow> RVOAgent \<Rightarrow> real \<Rightarrow> real \<Rightarrow> Vector2 \<times> Vector2" where
  "constraintParts_fl hyp agent other invTimeHorizon dt =
     (let relativePosition = sub_fl (position other) (position agent);
          relativeVelocity = sub_fl (velocity agent) (velocity other);
          dSq = absSq_fl relativePosition;
          combinedRadius = fl (radius agent + radius other);
          combinedRadiusSq = fl (combinedRadius * combinedRadius)
      in if dSq > combinedRadiusSq then
           (let w = sub_fl relativeVelocity (mult_fl relativePosition invTimeHorizon);
                wLengthSq = absSq_fl w;
                dotProduct = dot_fl w relativePosition
            in if dotProduct < 0
                  \<and> fl (dotProduct * dotProduct) > fl (combinedRadiusSq * wLengthSq) then
                 (let wLength = fl (sqrt wLengthSq);
                      unitW = (if wLength > EPSILON_fl then mult_fl w (fl (1 / wLength))
                               else normalize_fl hyp relativePosition)
                  in (perp unitW,
                      mult_fl unitW (fl (fl (combinedRadius * invTimeHorizon) - wLength))))
               else
                 (let leg = fl (sqrt (max 0 (fl (dSq - combinedRadiusSq))));
                      dir0 = (if det_fl relativePosition w > 0 then
                                mult_fl \<lparr>x = fl (fl (x relativePosition * leg)
                                                 - fl (y relativePosition * combinedRadius)),
                                          y = fl (fl (x relativePosition * combinedRadius)
                                                 + fl (y relativePosition * leg))\<rparr>
                                        (fl (1 / dSq))
                              else
                                mult_fl \<lparr>x = fl (fl (- x relativePosition * leg)
                                                 - fl (y relativePosition * combinedRadius)),
                                          y = fl (fl (x relativePosition * combinedRadius)
                                                 - fl (y relativePosition * leg))\<rparr>
                                        (fl (1 / dSq)));
                      dir1 = normalize_fl hyp dir0
                  in (dir1,
                      sub_fl (mult_fl dir1 (dot_fl relativeVelocity dir1)) relativeVelocity)))
         else
           (let invTimeStep = (if dt > 0 then fl (1 / dt) else 0);
                w = sub_fl relativeVelocity (mult_fl relativePosition invTimeStep);
                wLength = hyp (x w) (y w);
                unitW = (if wLength > EPSILON_fl then mult_fl w (fl (1 / wLength))
                         else normalize_fl hyp relativePosition)
            in (perp unitW,
                mult_fl unitW (fl (fl (combinedRadius * invTimeStep) - wLength)))))"

definition appendAgentConstraint_fl ::
  "(real \<Rightarrow> real \<Rightarrow> real) \<Rightarrow> RVOAgent \<Rightarrow> RVOAgent \<Rightarrow> OrcaLine list \<Rightarrow> real \<Rightarrow> real
     \<Rightarrow> OrcaLine list" where
  "appendAgentConstraint_fl hyp agent other lines invTimeHorizon dt =
     (case constraintParts_fl hyp agent other invTimeHorizon dt of
        (dir, u) \<Rightarrow>
          lines @ [\<lparr>point = add_fl (velocity agent) (mult_fl u 0.5),
                    direction = ensureDirection_fl hyp dir\<rparr>])"

section \<open>The neighbor finder\<close>

definition maxNeighbors :: nat where
  "maxNeighbors = 10"

text \<open>
  \<open>list.push\<close>, then the stable \<open>list.sort\<close> by \<open>distSq\<close>, then \<open>list.pop\<close> when the list
  is longer than \<open>maxNeighbors\<close>.
\<close>

definition insertNeighbor :: "NeighborRef list \<Rightarrow> NeighborRef \<Rightarrow> NeighborRef list" where
  "insertNeighbor list neighbor =
     (let pushed = list @ [neighbor];
          sorted_list = sort_key distSq pushed
      in if length sorted_list > maxNeighbors then butlast sorted_list else sorted_list)"

definition neighborStep ::
  "RVOAgent list \<Rightarrow> real \<Rightarrow> nat \<Rightarrow> nat \<Rightarrow> NeighborRef list list \<Rightarrow> NeighborRef list list" where
  "neighborStep ags radiusSq i j table =
     (let dSq = absSq (sub (position (ags ! i)) (position (ags ! j)))
      in if dSq > radiusSq then table
         else
           (let table1 = table[i := insertNeighbor (table ! i) \<lparr>index = j, distSq = dSq\<rparr>]
            in table1[j := insertNeighbor (table1 ! j) \<lparr>index = i, distSq = dSq\<rparr>]))"

definition buildNeighborTable :: "RVOAgent list \<Rightarrow> real \<Rightarrow> NeighborRef list list" where
  "buildNeighborTable ags radiusSq =
     fold (\<lambda>i table. fold (neighborStep ags radiusSq i) [i + 1 ..< length ags] table)
          [0 ..< length ags]
          (replicate (length ags) [])"

section \<open>Goals, the tick and the scenario\<close>

definition target :: "RVOAgent \<Rightarrow> Vector2" where
  "target agent =
     (case headingIndex agent of Heading0 \<Rightarrow> fst (anchors agent)
                               | Heading1 \<Rightarrow> snd (anchors agent))"

definition computePreferredVelocity :: "RVOAgent \<Rightarrow> Vector2" where
  "computePreferredVelocity agent =
     (let toGoal = sub (target agent) (position agent);
          distance = mag toGoal
      in if distance < 1 then zero
         else limit (mult (mult toGoal (1 / distance)) (preferredSpeed agent))
                    (maxSpeed agent))"

definition swapGoalIfNeeded :: "RVOAgent \<Rightarrow> RVOAgent" where
  "swapGoalIfNeeded agent =
     (if dist_v (position agent) (target agent) < max (radius agent * 0.8) 6
      then agent\<lparr>headingIndex :=
                   (if headingIndex agent = Heading0 then Heading1 else Heading0)\<rparr>
      else agent)"

record RVOModel =
  agents :: "RVOAgent list"
  params :: "string \<rightharpoonup> real"
  width :: real
  height :: real

definition pixelsPerMeter :: real where
  "pixelsPerMeter = 55"

definition agentRadiusMeters :: real where
  "agentRadiusMeters = 0.28"

definition DEFAULTS_neighborRadius :: real where
  "DEFAULTS_neighborRadius = 4"

definition DEFAULTS_timeHorizon :: real where
  "DEFAULTS_timeHorizon = 2.5"

definition DEFAULTS_agentCount :: nat where
  "DEFAULTS_agentCount = 32"

text \<open>
  The loop over the neighbors of one agent in \<open>update\<close>. The neighbor is read from the
  agent array as it is at that moment (\<open>store\<close>); an index outside the array would make
  \<open>other\<close> undefined and the constraint builder raise.
\<close>

fun collectLines ::
  "RVOAgent list \<Rightarrow> RVOAgent \<Rightarrow> NeighborRef list \<Rightarrow> OrcaLine list \<Rightarrow> real \<Rightarrow> real
     \<Rightarrow> error + OrcaLine list" where
  "collectLines store agent [] lines invTimeHorizon dt = Inr lines"
| "collectLines store agent (nb # rest) lines invTimeHorizon dt =
     (if index nb < length store
      then collectLines store agent rest
             (appendAgentConstraint agent (store ! index nb) lines invTimeHorizon dt)
             invTimeHorizon dt
      else Inl TypeError)"

text \<open>
  One call of the callback of \<open>this.agents.map\<close>: it stores the preferred velocity in the
  agent (a mutation of the shared array, returned as the new store) and returns the
  agent's next velocity.
\<close>

definition solveAgent ::
  "RVOAgent list \<Rightarrow> NeighborRef list list \<Rightarrow> real \<Rightarrow> real \<Rightarrow> nat
     \<Rightarrow> error + (RVOAgent list \<times> Vector2)" where
  "solveAgent store neighborTable invTimeHorizon dt idx =
     (let preferred = computePreferredVelocity (store ! idx);
          store1 = store[idx := (store ! idx)\<lparr>preferredVelocity := preferred\<rparr>];
          agent = store1 ! idx
      in case collectLines store1 agent (neighborTable ! idx) [] invTimeHorizon dt of
           Inl e \<Rightarrow> Inl e
         | Inr lines \<Rightarrow>
             (case linearProgram2 lines (maxSpeed agent) preferred False of
                Inl e \<Rightarrow> Inl e
              | Inr (lineFail, solved) \<Rightarrow>
                  if lineFail < length lines then
                    (case linearProgram3 lines 0 lineFail (maxSpeed agent) solved of
                       Inl e \<Rightarrow> Inl e
                     | Inr adjusted \<Rightarrow> Inr (store1, limit adjusted (maxSpeed agent)))
                  else Inr (store1, limit solved (maxSpeed agent))))"

text \<open>
  \<open>this.agents.map\<close> visits the indices in order and pushes each returned velocity into
  the new array \<open>newVelocities\<close>.
\<close>

fun computeVelocities ::
  "NeighborRef list list \<Rightarrow> real \<Rightarrow> real \<Rightarrow> nat list \<Rightarrow> RVOAgent list \<Rightarrow> Vector2 list
     \<Rightarrow> error + (RVOAgent list \<times> Vector2 list)" where
  "computeVelocities neighborTable invTimeHorizon dt [] store newVelocities =
     Inr (store, newVelocities)"
| "computeVelocities neighborTable invTimeHorizon dt (idx # rest) store newVelocities =
     (case solveAgent store neighborTable invTimeHorizon dt idx of
        Inl e \<Rightarrow> Inl e
      | Inr (store', v) \<Rightarrow>
          computeVelocities neighborTable invTimeHorizon dt rest store' (newVelocities @ [v]))"

text \<open>The second \<open>forEach\<close> of \<open>update\<close>: velocities are applied and positions integrated.\<close>

definition applyVelocities :: "RVOAgent list \<Rightarrow> Vector2 list \<Rightarrow> real \<Rightarrow> RVOAgent list" where
  "applyVelocities store newVelocities dt =
     map (\<lambda>(agent, v). agent\<lparr>velocity := v, position := add (position agent) (mult v dt)\<rparr>)
         (zip store newVelocities)"

definition update :: "real \<Rightarrow> RVOModel \<Rightarrow> error + RVOModel" where
  "update deltaTime m =
     (if deltaTime \<le> 0 \<or> length (agents m) = 0 then Inr m
      else
        (let dt = min deltaTime 0.05;
             prefNeighborRadius =
               (case params m ''neighborRadius'' of None \<Rightarrow> DEFAULTS_neighborRadius
                                                  | Some v \<Rightarrow> v) * pixelsPerMeter;
             neighborRadiusSq = prefNeighborRadius * prefNeighborRadius;
             timeHorizon =
               max (case params m ''timeHorizon'' of None \<Rightarrow> DEFAULTS_timeHorizon
                                                   | Some v \<Rightarrow> v) 0.2;
             invTimeHorizon = 1 / timeHorizon;
             swapped = map swapGoalIfNeeded (agents m);
             neighborTable = buildNeighborTable swapped neighborRadiusSq
         in case computeVelocities neighborTable invTimeHorizon dt
                   [0 ..< length swapped] swapped [] of
              Inl e \<Rightarrow> Inl e
            | Inr (store, newVelocities) \<Rightarrow>
                Inr (m\<lparr>agents := applyVelocities store newVelocities dt\<rparr>)))"

text \<open>
  \<open>createCircleScenario\<close> is the only place of the model that calls \<open>Math.random\<close>: once
  per agent, in index order. The draws are a parameter \<open>rnd\<close> (\<open>rnd i\<close> is the draw for
  agent \<open>i\<close>). Template literals are rendered with \<open>showNat\<close>.
\<close>

definition digitChar :: "nat \<Rightarrow> char" where
  "digitChar d = char_of (48 + d)"

function showNat :: "nat \<Rightarrow> string" where
  "showNat n = (if n < 10 then [digitChar n] else showNat (n div 10) @ [digitChar (n mod 10)])"
  by pat_completeness auto

termination
  by (relation "measure id") auto

declare showNat.simps [simp del]

definition createCircleScenario :: "(nat \<Rightarrow> real) \<Rightarrow> RVOModel \<Rightarrow> RVOModel" where
  "createCircleScenario rnd m =
     (if width m = 0 \<or> height m = 0 then m\<lparr>agents := []\<rparr>
      else
        (let count = DEFAULTS_agentCount;
             center = \<lparr>x = width m / 2, y = height m / 2\<rparr>;
             ringRadius = min (width m) (height m) * 0.35;
             agentRadius = agentRadiusMeters * pixelsPerMeter
         in m\<lparr>agents :=
               map (\<lambda>i.
                      let angle = (real i / real count) * pi * 2;
                          dir = \<lparr>x = cos angle, y = sin angle\<rparr>;
                          opposite = mult dir (- 1);
                          anchorA = add center (mult dir ringRadius);
                          anchorB = add center (mult opposite ringRadius);
                          prefSpeed = (1.2 + rnd i * 0.6) * pixelsPerMeter
                      in \<lparr>agent_id = ''rvo-'' @ showNat i,
                          position = anchorA,
                          velocity = zero,
                          preferredVelocity = zero,
                          radius = agentRadius,
                          preferredSpeed = prefSpeed,
                          maxSpeed = prefSpeed * 1.25,
                          anchors = (anchorA, anchorB),
                          headingIndex = Heading1,
                          color = ''hsl('' @ showNat (180 + i * 5) @ '', 70%, 60%)''\<rparr>)
                   [0 ..< count]\<rparr>))"

definition reset :: "(nat \<Rightarrow> real) \<Rightarrow> RVOModel \<Rightarrow> RVOModel" where
  "reset rnd m = createCircleScenario rnd m"

text \<open>
  The rest of the public interface, inherited from \<open>SimulationModel\<close>: the constructor
  copies the initial parameters and starts with no agents on a canvas of size zero;
  \<open>resize\<close> stores the canvas size and, through \<open>onResize\<close>, seeds the scenario again;
  \<open>configure\<close> merges new parameter values over the old ones. \<open>draw\<close> only reads the state.
\<close>

definition newRVOModel :: "(string \<rightharpoonup> real) \<Rightarrow> RVOModel" where
  "newRVOModel initialParams = \<lparr>agents = [], params = initialParams, width = 0, height = 0\<rparr>"

definition resize :: "(nat \<Rightarrow> real) \<Rightarrow> real \<Rightarrow> real \<Rightarrow> RVOModel \<Rightarrow> RVOModel" where
  "resize rnd w h m = createCircleScenario rnd (m\<lparr>width := w, height := h\<rparr>)"

definition configure :: "(string \<rightharpoonup> real) \<Rightarrow> RVOModel \<Rightarrow> RVOModel" where
  "configure nextParams m = m\<lparr>params := params m ++ nextParams\<rparr>"

section \<open>Notions used in the statements\<close>

text \<open>
  These definitions do not model code. They name the notions the statements below are
  about: the permitted side of a constraint line, the point of a line at a parameter, and
  the quantities of the single-line solve.
\<close>

definition satisfies :: "OrcaLine \<Rightarrow> Vector2 \<Rightarrow> bool" where
  "satisfies line v \<longleftrightarrow> det (direction line) (sub (point line) v) \<le> 0"

definition pointAt :: "OrcaLine \<Rightarrow> real \<Rightarrow> Vector2" where
  "pointAt line t = add (point line) (mult (direction line) t)"


definition discriminantOf :: "OrcaLine \<Rightarrow> real \<Rightarrow> real" where
  "discriminantOf line rad =
     dot (point line) (direction line) * dot (point line) (direction line)
       + rad * rad - absSq (point line)"

definition tLeftOf :: "OrcaLine \<Rightarrow> real \<Rightarrow> real" where
  "tLeftOf line rad = - dot (point line) (direction line) - sqrt (discriminantOf line rad)"

definition tRightOf :: "OrcaLine \<Rightarrow> real \<Rightarrow> real" where
  "tRightOf line rad = - dot (point line) (direction line) + sqrt (discriminantOf line rad)"


definition violates :: "OrcaLine \<Rightarrow> Vector2 \<Rightarrow> bool" where
  "violates line v \<longleftrightarrow> det (direction line) (sub (point line) v) > 0"

text \<open>
  The quantity the solver tests a line with: a candidate is rejected when it is positive.
  For a unit direction it is the distance by which the candidate lies on the forbidden
  side. \<open>paramBound\<close> is the largest absolute value of the parameters at which a line
  of the list enters and leaves the speed disk (\<open>tLeft\<close> and \<open>tRight\<close> of the single-line
  solve); a line that misses the disk, for which the solve computes neither, does not
  count.
\<close>

definition violation :: "OrcaLine \<Rightarrow> Vector2 \<Rightarrow> real" where
  "violation line v = det (direction line) (sub (point line) v)"

fun paramBound :: "OrcaLine list \<Rightarrow> real \<Rightarrow> real" where
  "paramBound [] rad = 0"
| "paramBound (l # ls) rad =
     (if discriminantOf l rad < 0 then paramBound ls rad
      else max (max \<bar>tLeftOf l rad\<bar> \<bar>tRightOf l rad\<bar>) (paramBound ls rad))"

text \<open>
  The two quantities \<open>update\<close> derives from the parameters, under the names of its
  local constants.
\<close>

definition neighborRadiusSqOf :: "RVOModel \<Rightarrow> real" where
  "neighborRadiusSqOf m =
     ((case params m ''neighborRadius'' of None \<Rightarrow> DEFAULTS_neighborRadius | Some v \<Rightarrow> v)
        * pixelsPerMeter)
     * ((case params m ''neighborRadius'' of None \<Rightarrow> DEFAULTS_neighborRadius | Some v \<Rightarrow> v)
        * pixelsPerMeter)"

definition invTimeHorizonOf :: "RVOModel \<Rightarrow> real" where
  "invTimeHorizonOf m =
     1 / max (case params m ''timeHorizon'' of None \<Rightarrow> DEFAULTS_timeHorizon | Some v \<Rightarrow> v) 0.2"

text \<open>
  For the neighbor finder: the squared distance of two agents, the candidates of agent
  \<open>k\<close> among the indices \<open>js\<close> (every other agent the source does not skip) in the order
  of \<open>js\<close>, their insertion one after the other, and what is left of a set of candidates
  in a bounded list: a candidate is in the list, or the list is full of entries that are
  no farther away.
\<close>

definition sqDist :: "RVOAgent list \<Rightarrow> nat \<Rightarrow> nat \<Rightarrow> real" where
  "sqDist ags i j = absSq (sub (position (ags ! i)) (position (ags ! j)))"

definition candidates :: "RVOAgent list \<Rightarrow> real \<Rightarrow> nat \<Rightarrow> nat list \<Rightarrow> NeighborRef list" where
  "candidates ags radiusSq k js =
     map (\<lambda>j. \<lparr>index = j, distSq = sqDist ags k j\<rparr>)
         (filter (\<lambda>j. j \<noteq> k \<and> \<not> sqDist ags k j > radiusSq) js)"

definition insertAll :: "NeighborRef list \<Rightarrow> NeighborRef list \<Rightarrow> NeighborRef list" where
  "insertAll cs l = fold (\<lambda>nb acc. insertNeighbor acc nb) cs l"

definition kept :: "NeighborRef set \<Rightarrow> NeighborRef list \<Rightarrow> bool" where
  "kept C l \<longleftrightarrow>
     (\<forall>c \<in> C. c \<in> set l \<or> (length l = maxNeighbors \<and> (\<forall>e \<in> set l. distSq e \<le> distSq c)))"

text \<open>
  For the two phases of a tick: an agent without the one field the first phase writes,
  and that write on the agent at an index.
\<close>

definition physical :: "RVOAgent \<Rightarrow> RVOAgent" where
  "physical a = a\<lparr>preferredVelocity := zero\<rparr>"

definition storePreferred :: "RVOAgent list \<Rightarrow> nat \<Rightarrow> RVOAgent list" where
  "storePreferred store idx =
     store[idx := (store ! idx)\<lparr>preferredVelocity := computePreferredVelocity (store ! idx)\<rparr>]"

text \<open>
  The states an \<open>RVOModel\<close> object can be in: the constructed one, and every state a
  public method leads to from such a state. The draws of \<open>Math.random\<close> lie in \<open>[0, 1)\<close>.
\<close>

definition randomDraws :: "(nat \<Rightarrow> real) \<Rightarrow> bool" where
  "randomDraws rnd \<longleftrightarrow> (\<forall>i. 0 \<le> rnd i \<and> rnd i < 1)"

inductive reachable :: "RVOModel \<Rightarrow> bool" where
  constructed: "reachable (newRVOModel initialParams)"
| resized: "reachable m \<Longrightarrow> randomDraws rnd \<Longrightarrow> reachable (resize rnd w h m)"
| was_reset: "reachable m \<Longrightarrow> randomDraws rnd \<Longrightarrow> reachable (reset rnd m)"
| configured: "reachable m \<Longrightarrow> reachable (configure nextParams m)"
| updated: "reachable m \<Longrightarrow> update deltaTime m = Inr m' \<Longrightarrow> reachable m'"

section \<open>Concrete scenes\<close>

text \<open>
  A concrete scene used to run the tick: two agents of radius 15.4 at rest, 32 units
  apart on the horizontal axis, each heading for an anchor 400 units away on the far side
  of the other, so that their straight-line paths run head-on into each other.
\<close>

definition headOnA :: RVOAgent where
  "headOnA = \<lparr>agent_id = ''rvo-0'', position = \<lparr>x = 0, y = 0\<rparr>,
              velocity = \<lparr>x = 0, y = 0\<rparr>, preferredVelocity = \<lparr>x = 0, y = 0\<rparr>,
              radius = 77 / 5, preferredSpeed = 80, maxSpeed = 100,
              anchors = (\<lparr>x = 0, y = 0\<rparr>, \<lparr>x = 400, y = 0\<rparr>),
              headingIndex = Heading1, color = ''hsl(180, 70%, 60%)''\<rparr>"

definition headOnB :: RVOAgent where
  "headOnB = \<lparr>agent_id = ''rvo-1'', position = \<lparr>x = 32, y = 0\<rparr>,
              velocity = \<lparr>x = 0, y = 0\<rparr>, preferredVelocity = \<lparr>x = 0, y = 0\<rparr>,
              radius = 77 / 5, preferredSpeed = 80, maxSpeed = 100,
              anchors = (\<lparr>x = 32, y = 0\<rparr>, \<lparr>x = - 368, y = 0\<rparr>),
              headingIndex = Heading1, color = ''hsl(185, 70%, 60%)''\<rparr>"

definition headOnModel :: RVOModel where
  "headOnModel = \<lparr>agents = [headOnA, headOnB], params = Map.empty,
                  width = 800, height = 600\<rparr>"

text \<open>
  A row of twelve agents on the horizontal axis, one more than \<open>maxNeighbors + 1\<close>: the
  first at 0, ten to its left at unit spacing and one to its right at 11.
\<close>

definition rowAgent :: "real \<Rightarrow> RVOAgent" where
  "rowAgent p = headOnA\<lparr>position := \<lparr>x = p, y = 0\<rparr>\<rparr>"

definition crowd :: "RVOAgent list" where
  "crowd = map rowAgent [0, - 1, - 2, - 3, - 4, - 5, - 6, - 7, - 8, - 9, - 10, 11]"

text \<open>
  An agent at rest at a given place, with a radius that is a double, for the runs of the
  builder in double arithmetic.
\<close>

definition restingAgent :: "Vector2 \<Rightarrow> RVOAgent" where
  "restingAgent p =
     \<lparr>agent_id = ''rvo-0'', position = p, velocity = zero, preferredVelocity = zero,
      radius = 15, preferredSpeed = 66, maxSpeed = 165 / 2, anchors = (p, p),
      headingIndex = Heading1, color = ''hsl(180, 70%, 60%)''\<rparr>"

section \<open>Properties of the vector primitive\<close>

lemma absSq_nonneg: "0 \<le> absSq v"
  by (simp add: absSq_def)

lemma mag_absSq: "mag v = sqrt (absSq v)"
  by (simp add: mag_def hypot_def absSq_def)

lemma mag_nonneg: "0 \<le> mag v"
  by (simp add: mag_absSq absSq_nonneg)

lemma mag_sq: "mag v * mag v = absSq v"
  by (simp add: mag_absSq absSq_nonneg)

lemma mag_zero_iff: "mag v = 0 \<longleftrightarrow> absSq v = 0"
  by (simp add: mag_absSq)

lemma absSq_mult: "absSq (mult v s) = absSq v * (s * s)"
  by (simp add: absSq_def mult_def algebra_simps)

lemma mag_mult: "mag (mult v s) = mag v * \<bar>s\<bar>"
proof -
  have "sqrt (absSq v * (s * s)) = sqrt (absSq v) * sqrt (s * s)"
    by (rule real_sqrt_mult)
  then show ?thesis
    by (simp add: mag_absSq absSq_mult)
qed

lemma absSq_normalize: "absSq v \<noteq> 0 \<Longrightarrow> absSq (normalize_v v) = 1"
proof -
  assume nz: "absSq v \<noteq> 0"
  then have m: "mag v \<noteq> 0" by (simp add: mag_zero_iff)
  have "absSq (mult v (1 / mag v)) = absSq v * ((1 / mag v) * (1 / mag v))"
    by (rule absSq_mult)
  also have "\<dots> = absSq v / (mag v * mag v)" by simp
  also have "\<dots> = 1" using nz by (simp add: mag_sq)
  finally show ?thesis using m by (simp add: normalize_v_def)
qed

lemma mag_normalize: "absSq v \<noteq> 0 \<Longrightarrow> mag (normalize_v v) = 1"
  by (simp add: mag_absSq absSq_normalize)

lemma normalize_zero: "absSq v = 0 \<Longrightarrow> normalize_v v = zero"
  by (simp add: normalize_v_def mag_zero_iff)

lemma mag_limit: "0 \<le> m \<Longrightarrow> mag (limit v m) \<le> m"
proof (cases "mag v \<le> m")
  case True
  then show ?thesis by (simp add: limit_def)
next
  case False
  assume m: "0 \<le> m"
  from False m have "mag v \<noteq> 0" by auto
  then have "mag (normalize_v v) = 1" by (simp add: mag_normalize mag_zero_iff)
  then have "mag (mult (normalize_v v) m) = m" using m by (simp add: mag_mult)
  with False show ?thesis by (simp add: limit_def)
qed

lemma absSq_ensureDirection: "absSq (ensureDirection d) = 1"
proof (cases "absSq d \<le> EPSILON")
  case True
  then show ?thesis by (simp add: ensureDirection_def absSq_def)
next
  case False
  then have "absSq d \<noteq> 0" by (auto simp: EPSILON_def)
  with False show ?thesis by (simp add: ensureDirection_def absSq_normalize)
qed

section \<open>Properties of the linear program\<close>





lemma linearProgram1_total:
  "i < length lines \<Longrightarrow> \<exists>s r'. linearProgram1 lines i rad opt dOpt result = Inr (s, r')"
  by (auto simp: linearProgram1_def Let_def split: option.splits prod.splits)



lemma absSq_pointAt:
  "absSq (direction line) = 1 \<Longrightarrow>
     absSq (pointAt line t) - rad * rad
       = (t + dot (point line) (direction line)) * (t + dot (point line) (direction line))
           - discriminantOf line rad"
proof -
  assume u: "absSq (direction line) = 1"
  have "absSq (pointAt line t)
          = absSq (point line) + 2 * t * dot (point line) (direction line)
              + t * t * absSq (direction line)"
    by (simp add: absSq_def pointAt_def add_def mult_def dot_def algebra_simps)
  with u show ?thesis
    by (simp add: discriminantOf_def algebra_simps)
qed

lemma in_disk_iff:
  assumes u: "absSq (direction line) = 1" and d: "0 \<le> discriminantOf line rad"
  shows "absSq (pointAt line t) \<le> rad * rad \<longleftrightarrow> tLeftOf line rad \<le> t \<and> t \<le> tRightOf line rad"
proof -
  let ?dp = "dot (point line) (direction line)"
  let ?D = "discriminantOf line rad"
  have "absSq (pointAt line t) \<le> rad * rad \<longleftrightarrow> (t + ?dp) * (t + ?dp) \<le> ?D"
    using absSq_pointAt[OF u, of t rad] by linarith
  also have "\<dots> \<longleftrightarrow> \<bar>t + ?dp\<bar> \<le> sqrt ?D"
    using d abs_le_square_iff[of "t + ?dp" "sqrt ?D"] by (simp add: power2_eq_square)
  also have "\<dots> \<longleftrightarrow> tLeftOf line rad \<le> t \<and> t \<le> tRightOf line rad"
    by (auto simp: tLeftOf_def tRightOf_def)
  finally show ?thesis .
qed


declare lp2Loop.simps [simp del]

declare lp3Loop.simps [simp del]

lemma lp2Loop_total:
  "\<exists>k r. lp2Loop lines rad opt dOpt i result = Inr (k, r)"
proof (induction lines rad opt dOpt i result rule: lp2Loop.induct)
  case (1 lines rad opt dOpt i result)
  note unf = lp2Loop.simps[of lines rad opt dOpt i result]
  show ?case
  proof (cases "i < length lines")
    case False
    then show ?thesis by (simp add: unf)
  next
    case True
    show ?thesis
    proof (cases "det (direction (lines ! i)) (sub (point (lines ! i)) result) > 0")
      case False
      with True "1.IH"(2) show ?thesis by (simp add: unf)
    next
      case viol: True
      from linearProgram1_total[OF True] obtain s r' where
        lp1: "linearProgram1 lines i rad opt dOpt result = Inr (s, r')" by blast
      show ?thesis
      proof (cases s)
        case False
        with True viol lp1 show ?thesis by (simp add: unf)
      next
        case s: True
        from "1.IH"(1)[OF True viol refl lp1 refl] s
        obtain k r where "lp2Loop lines rad opt dOpt (i + 1) r' = Inr (k, r)" by auto
        with True viol lp1 s show ?thesis by (simp add: unf)
      qed
    qed
  qed
qed


lemma lp2Loop_end:
  "\<not> i < length lines \<Longrightarrow> lp2Loop lines rad opt dOpt i result = Inr (length lines, result)"
  by (simp add: lp2Loop.simps[of lines rad opt dOpt i result])

lemma lp2Loop_skip:
  "i < length lines \<Longrightarrow> \<not> violates (lines ! i) result \<Longrightarrow>
     lp2Loop lines rad opt dOpt i result = lp2Loop lines rad opt dOpt (i + 1) result"
  by (simp add: lp2Loop.simps[of lines rad opt dOpt i result] violates_def)












lemma satisfies_violation: "satisfies line v \<longleftrightarrow> violation line v \<le> 0"
  by (simp add: satisfies_def violation_def)







subsection \<open>The full solve is total\<close>


text \<open>
  The claim as stated promises a feasible velocity whenever \<open>lineFail\<close> is the number of
  lines. Two unit lines through the origin whose directions have cross product
  \<open>400000 / 40000000001 < EPSILON\<close> are treated as parallel: the second line is not clipped
  against the first, and the returned velocity lies on the forbidden side of the first.
\<close>

lemma sqrt_40000: "sqrt 40000 = 200"
  by (rule real_sqrt_unique) simp_all


text \<open>
  There the first line is missed by \<open>200 / 40000000001\<close>, about \<open>5e-9\<close>, within the
  bound \<open>EPSILON * 200\<close> of the theorem.
\<close>

lemma linearProgram2_near_parallel_bound:
  "violation \<lparr>point = \<lparr>x = 0, y = 0\<rparr>, direction = \<lparr>x = 1, y = 0\<rparr>\<rparr>
      \<lparr>x = - 39999999999 / 80000000002000, y = - 200 / 40000000001\<rparr> = 200 / 40000000001
   \<and> paramBound
        [\<lparr>point = \<lparr>x = 0, y = 0\<rparr>, direction = \<lparr>x = 1, y = 0\<rparr>\<rparr>,
         \<lparr>point = \<lparr>x = 0, y = 0\<rparr>,
          direction = \<lparr>x = 39999999999 / 40000000001, y = 400000 / 40000000001\<rparr>\<rparr>] 200 = 200
   \<and> (200 / 40000000001 :: real) \<le> EPSILON * 200"
  by (simp add: violation_def det_def sub_def tLeftOf_def tRightOf_def discriminantOf_def
        dot_def absSq_def sqrt_40000 EPSILON_def)

text \<open>
  The condition on the optimization direction is needed: in direction-optimization mode
  the solve starts from \<open>optVelocity * radius\<close>, which a direction longer than one puts
  outside the speed disk.
\<close>

lemma linearProgram2_direction_mode_example:
  "linearProgram2 [] 1 \<lparr>x = 2, y = 0\<rparr> True = Inr (0, \<lparr>x = 2, y = 0\<rparr>)
   \<and> \<not> absSq \<lparr>x = 2, y = 0\<rparr> \<le> 1 * 1"
  by (simp add: linearProgram2_def lp2Loop_end mult_def absSq_def)


subsection \<open>The single-line solve on the first line\<close>

lemma linearProgram1_first_infeasible:
  "lines \<noteq> [] \<Longrightarrow> discriminantOf (lines ! 0) rad < 0 \<Longrightarrow>
     linearProgram1 lines 0 rad opt dOpt result = Inr (False, result)"
  by (simp add: linearProgram1_def discriminantOf_def Let_def)

lemma linearProgram1_first_feasible:
  assumes ne: "lines \<noteq> []" and d: "0 \<le> discriminantOf (lines ! 0) rad"
  shows "linearProgram1 lines 0 rad opt False result
           = Inr (True, pointAt (lines ! 0)
                     (max (tLeftOf (lines ! 0) rad)
                        (min (tRightOf (lines ! 0) rad)
                           (dot (direction (lines ! 0)) (sub opt (point (lines ! 0)))))))"
proof -
  let ?line = "lines ! 0"
  define tL where "tL = tLeftOf ?line rad"
  define tR where "tR = tRightOf ?line rad"
  define t where "t = dot (direction ?line) (sub opt (point ?line))"
  from d have ord: "tL \<le> tR"
    by (simp add: tL_def tR_def tLeftOf_def tRightOf_def)
  from d have nd: "\<not> dot (point ?line) (direction ?line)
                      * dot (point ?line) (direction ?line) + rad * rad
                      - absSq (point ?line) < 0"
    by (simp add: discriminantOf_def)
  have unf: "linearProgram1 lines 0 rad opt False result
         = (if t < tL then Inr (True, add (point ?line) (mult (direction ?line) tL))
            else if t > tR then Inr (True, add (point ?line) (mult (direction ?line) tR))
            else Inr (True, add (point ?line) (mult (direction ?line) t)))"
    using ne nd
    by (simp add: linearProgram1_def Let_def tL_def tR_def t_def tLeftOf_def tRightOf_def
                  discriminantOf_def)
  have "max tL (min tR t) = (if t < tL then tL else if t > tR then tR else t)"
    using ord by (simp add: max_def min_def)
  then show ?thesis
    unfolding unf pointAt_def tL_def[symmetric] tR_def[symmetric] t_def[symmetric]
    by simp
qed

lemma dist_to_pointAt:
  "absSq (direction line) = 1 \<Longrightarrow>
     absSq (sub opt (pointAt line s))
       = (s - dot (direction line) (sub opt (point line)))
           * (s - dot (direction line) (sub opt (point line)))
         + (absSq (sub opt (point line))
             - dot (direction line) (sub opt (point line))
                 * dot (direction line) (sub opt (point line)))"
proof -
  assume u: "absSq (direction line) = 1"
  have "absSq (sub opt (pointAt line s))
          = absSq (sub opt (point line))
              - 2 * s * dot (direction line) (sub opt (point line))
              + s * s * absSq (direction line)"
    by (simp add: absSq_def pointAt_def sub_def add_def mult_def dot_def algebra_simps)
  with u show ?thesis by (simp add: algebra_simps)
qed

lemma clamp_closest:
  fixes t s a b :: real
  assumes "a \<le> s" "s \<le> b"
  shows "(max a (min b t) - t) * (max a (min b t) - t) \<le> (s - t) * (s - t)"
proof -
  have "\<bar>max a (min b t) - t\<bar> \<le> \<bar>s - t\<bar>"
    using assms by (auto simp: max_def min_def)
  then have "(max a (min b t) - t)\<^sup>2 \<le> (s - t)\<^sup>2"
    by (simp add: abs_le_square_iff)
  then show ?thesis by (simp add: power2_eq_square)
qed

text \<open>
  Claim C4. For the first line (\<open>lineNo = 0\<close>, no earlier constraint) in point-optimization
  mode: a negative discriminant against the disk of radius \<open>rad\<close> makes \<open>linearProgram1\<close>
  report infeasibility and return the candidate unchanged; otherwise it reports success
  with the point of the line at the parameter of the projection of the preferred velocity,
  clamped to \<open>[tLeft, tRight]\<close>. For a unit direction that interval is exactly the part of
  the line inside the disk, and the returned point is the point of that part closest to
  the preferred velocity.
\<close>

theorem linearProgram1_single_line:
  assumes "lines \<noteq> []"
  shows "(discriminantOf (lines ! 0) rad < 0 \<longrightarrow>
            linearProgram1 lines 0 rad opt False result = Inr (False, result)) \<and>
         (0 \<le> discriminantOf (lines ! 0) rad \<longrightarrow>
            (\<exists>c. linearProgram1 lines 0 rad opt False result = Inr (True, pointAt (lines ! 0) c) \<and>
                 c = max (tLeftOf (lines ! 0) rad)
                       (min (tRightOf (lines ! 0) rad)
                          (dot (direction (lines ! 0)) (sub opt (point (lines ! 0))))) \<and>
                 (absSq (direction (lines ! 0)) = 1 \<longrightarrow>
                    (\<forall>s. absSq (pointAt (lines ! 0) s) \<le> rad * rad \<longleftrightarrow>
                           tLeftOf (lines ! 0) rad \<le> s \<and> s \<le> tRightOf (lines ! 0) rad) \<and>
                    absSq (pointAt (lines ! 0) c) \<le> rad * rad \<and>
                    (\<forall>s. absSq (pointAt (lines ! 0) s) \<le> rad * rad \<longrightarrow>
                           absSq (sub opt (pointAt (lines ! 0) c))
                             \<le> absSq (sub opt (pointAt (lines ! 0) s))))))"
proof (intro conjI impI)
  assume "discriminantOf (lines ! 0) rad < 0"
  with assms show "linearProgram1 lines 0 rad opt False result = Inr (False, result)"
    by (rule linearProgram1_first_infeasible)
next
  assume d: "0 \<le> discriminantOf (lines ! 0) rad"
  let ?line = "lines ! 0"
  let ?t = "dot (direction ?line) (sub opt (point ?line))"
  let ?c = "max (tLeftOf ?line rad) (min (tRightOf ?line rad) ?t)"
  from d have ord: "tLeftOf ?line rad \<le> tRightOf ?line rad"
    by (simp add: tLeftOf_def tRightOf_def)
  then have cin: "tLeftOf ?line rad \<le> ?c" "?c \<le> tRightOf ?line rad"
    by (auto simp: max_def min_def)
  have run: "linearProgram1 lines 0 rad opt False result = Inr (True, pointAt ?line ?c)"
    by (rule linearProgram1_first_feasible[OF assms d])
  have geo: "(\<forall>s. absSq (pointAt ?line s) \<le> rad * rad \<longleftrightarrow>
                   tLeftOf ?line rad \<le> s \<and> s \<le> tRightOf ?line rad) \<and>
             absSq (pointAt ?line ?c) \<le> rad * rad \<and>
             (\<forall>s. absSq (pointAt ?line s) \<le> rad * rad \<longrightarrow>
                  absSq (sub opt (pointAt ?line ?c)) \<le> absSq (sub opt (pointAt ?line s)))"
    if u: "absSq (direction ?line) = 1"
  proof (intro conjI allI impI)
    fix s
    show "absSq (pointAt ?line s) \<le> rad * rad \<longleftrightarrow>
            tLeftOf ?line rad \<le> s \<and> s \<le> tRightOf ?line rad"
      by (rule in_disk_iff[OF u d])
  next
    show "absSq (pointAt ?line ?c) \<le> rad * rad"
      using in_disk_iff[OF u d, of ?c] cin by simp
  next
    fix s
    assume "absSq (pointAt ?line s) \<le> rad * rad"
    then have s: "tLeftOf ?line rad \<le> s" "s \<le> tRightOf ?line rad"
      using in_disk_iff[OF u d, of s] by simp_all
    from clamp_closest[OF s, of ?t]
    show "absSq (sub opt (pointAt ?line ?c)) \<le> absSq (sub opt (pointAt ?line s))"
      by (simp add: dist_to_pointAt[OF u])
  qed
  from run geo
  show "\<exists>c. linearProgram1 lines 0 rad opt False result = Inr (True, pointAt ?line c) \<and>
             c = ?c \<and>
             (absSq (direction ?line) = 1 \<longrightarrow>
                (\<forall>s. absSq (pointAt ?line s) \<le> rad * rad \<longleftrightarrow>
                       tLeftOf ?line rad \<le> s \<and> s \<le> tRightOf ?line rad) \<and>
                absSq (pointAt ?line c) \<le> rad * rad \<and>
                (\<forall>s. absSq (pointAt ?line s) \<le> rad * rad \<longrightarrow>
                       absSq (sub opt (pointAt ?line c)) \<le> absSq (sub opt (pointAt ?line s))))"
    by blast
qed

lemma sqrt_16: "sqrt 16 = 4"
  by (rule real_sqrt_unique) simp_all

text \<open>
  Two instances of the theorem on the unit line \<open>y = 3\<close>: with radius 5 the preferred
  velocity \<open>(10, 0)\<close> is projected to parameter 10 and clamped to \<open>tRight = 4\<close>; with
  radius 1 the line misses the disk.
\<close>

theorem linearProgram1_single_line_witness:
  "[\<lparr>point = \<lparr>x = 0, y = 3\<rparr>, direction = \<lparr>x = 1, y = 0\<rparr>\<rparr>] \<noteq> []
   \<and> discriminantOf \<lparr>point = \<lparr>x = 0, y = 3\<rparr>, direction = \<lparr>x = 1, y = 0\<rparr>\<rparr> 5 = 16
   \<and> absSq (direction \<lparr>point = \<lparr>x = 0, y = 3\<rparr>, direction = \<lparr>x = 1, y = 0\<rparr>\<rparr>) = 1
   \<and> linearProgram1 [\<lparr>point = \<lparr>x = 0, y = 3\<rparr>, direction = \<lparr>x = 1, y = 0\<rparr>\<rparr>] 0 5
         \<lparr>x = 10, y = 0\<rparr> False \<lparr>x = 0, y = 0\<rparr> = Inr (True, \<lparr>x = 4, y = 3\<rparr>)
   \<and> absSq \<lparr>x = 4, y = 3\<rparr> \<le> 5 * 5
   \<and> absSq (sub \<lparr>x = 10, y = 0\<rparr> \<lparr>x = 4, y = 3\<rparr>)
         \<le> absSq (sub \<lparr>x = 10, y = 0\<rparr> \<lparr>x = 0, y = 3\<rparr>)
   \<and> discriminantOf \<lparr>point = \<lparr>x = 0, y = 3\<rparr>, direction = \<lparr>x = 1, y = 0\<rparr>\<rparr> 1 < 0
   \<and> linearProgram1 [\<lparr>point = \<lparr>x = 0, y = 3\<rparr>, direction = \<lparr>x = 1, y = 0\<rparr>\<rparr>] 0 1
         \<lparr>x = 10, y = 0\<rparr> False \<lparr>x = 7, y = 7\<rparr> = Inr (False, \<lparr>x = 7, y = 7\<rparr>)"
proof -
  let ?l = "\<lparr>point = \<lparr>x = 0, y = 3\<rparr>, direction = \<lparr>x = 1, y = 0 :: real\<rparr>\<rparr>"
  let ?opt = "\<lparr>x = 10, y = 0 :: real\<rparr>"
  have ne: "[?l] \<noteq> []" by simp
  have d5: "discriminantOf ?l 5 = 16" and d1: "discriminantOf ?l 1 < 0"
    by (simp_all add: discriminantOf_def dot_def absSq_def)
  have u: "absSq (direction ?l) = 1" by (simp add: absSq_def)
  have tl: "tLeftOf ?l 5 = - 4" and tr: "tRightOf ?l 5 = 4"
    by (simp_all add: tLeftOf_def tRightOf_def d5 sqrt_16 dot_def)
  have c: "max (tLeftOf ?l 5) (min (tRightOf ?l 5) (dot (direction ?l) (sub ?opt (point ?l)))) = 4"
    by (simp add: tl tr dot_def sub_def)
  have p4: "pointAt ?l 4 = \<lparr>x = 4, y = 3\<rparr>" and p0: "pointAt ?l 0 = \<lparr>x = 0, y = 3\<rparr>"
    by (simp_all add: pointAt_def add_def mult_def)
  have in0: "absSq (pointAt ?l 0) \<le> 5 * 5" by (simp add: p0 absSq_def)
  from linearProgram1_single_line[OF ne, of 5 ?opt "\<lparr>x = 0, y = 0\<rparr>"] d5 u c in0
  have "linearProgram1 [?l] 0 5 ?opt False \<lparr>x = 0, y = 0\<rparr> = Inr (True, pointAt ?l 4)"
    and "absSq (pointAt ?l 4) \<le> 5 * 5"
    and "absSq (sub ?opt (pointAt ?l 4)) \<le> absSq (sub ?opt (pointAt ?l 0))"
    by auto
  moreover from linearProgram1_single_line[OF ne, of 1 ?opt "\<lparr>x = 7, y = 7\<rparr>"] d1
  have "linearProgram1 [?l] 0 1 ?opt False \<lparr>x = 7, y = 7\<rparr> = Inr (False, \<lparr>x = 7, y = 7\<rparr>)"
    by simp
  ultimately show ?thesis
    using d5 d1 u by (simp add: p4 p0)
qed

subsection \<open>The constraint builder\<close>

lemma mag_one: "absSq v = 1 \<Longrightarrow> mag v = 1"
  by (simp add: mag_absSq)

lemma appendAgentConstraint_eq:
  "appendAgentConstraint agent other lines invTimeHorizon dt
     = lines @ [\<lparr>point = add (velocity agent)
                            (mult (snd (constraintParts agent other invTimeHorizon dt)) 0.5),
                 direction = ensureDirection
                               (fst (constraintParts agent other invTimeHorizon dt))\<rparr>]"
  by (simp add: appendAgentConstraint_def split: prod.splits)

lemma constraintParts_coincident:
  assumes p: "position other = position agent"
    and v: "mag (sub (velocity agent) (velocity other)) \<le> EPSILON"
  shows "fst (constraintParts agent other invTimeHorizon dt) = zero"
proof -
  have rp: "sub (position other) (position agent) = zero"
    by (simp add: p sub_def zero_def)
  have z: "absSq zero = 0" "mult zero c = zero" "sub w zero = w" "perp zero = zero" for c w
    by (simp_all add: absSq_def zero_def mult_def sub_def perp_def)
  have nz: "normalize_v zero = zero"
    by (simp add: normalize_zero z)
  have nc: "\<not> 0 > (radius agent + radius other) * (radius agent + radius other)"
    by (simp add: not_less)
  have w: "hypot (x (sub (velocity agent) (velocity other)))
                 (y (sub (velocity agent) (velocity other)))
             = mag (sub (velocity agent) (velocity other))"
    by (simp add: mag_def)
  from v have nw: "\<not> mag (sub (velocity agent) (velocity other)) > EPSILON" by simp
  show ?thesis
    unfolding constraintParts_def rp
    by (simp only: Let_def z nz nc w nw if_False fst_conv)
qed

text \<open>
  Over the real numbers \<open>appendAgentConstraint\<close> is a total function of the agent pair:
  it appends exactly one line to the list it is given. The direction of that line has
  length exactly one; it is the fallback \<open>(1, 0)\<close> when the computed direction has squared
  length at most \<open>EPSILON\<close> and the normalized computed direction otherwise. A neighbor at
  zero relative displacement (and relative speed at most \<open>EPSILON\<close>) yields the fallback.
\<close>

lemma appendAgentConstraint_direction_exact:
  "\<exists>line. appendAgentConstraint agent other lines invTimeHorizon dt = lines @ [line] \<and>
      absSq (direction line) = 1 \<and> mag (direction line) = 1 \<and>
      (absSq (fst (constraintParts agent other invTimeHorizon dt)) \<le> EPSILON
         \<longrightarrow> direction line = \<lparr>x = 1, y = 0\<rparr>) \<and>
      (absSq (fst (constraintParts agent other invTimeHorizon dt)) > EPSILON
         \<longrightarrow> direction line = normalize_v (fst (constraintParts agent other invTimeHorizon dt))) \<and>
      (position other = position agent \<and>
         mag (sub (velocity agent) (velocity other)) \<le> EPSILON
         \<longrightarrow> direction line = \<lparr>x = 1, y = 0\<rparr>)"
proof -
  let ?d = "fst (constraintParts agent other invTimeHorizon dt)"
  let ?line = "\<lparr>point = add (velocity agent)
                            (mult (snd (constraintParts agent other invTimeHorizon dt)) 0.5),
                 direction = ensureDirection ?d\<rparr>"
  have a: "appendAgentConstraint agent other lines invTimeHorizon dt = lines @ [?line]"
    by (rule appendAgentConstraint_eq)
  have b: "absSq (direction ?line) = 1" by (simp add: absSq_ensureDirection)
  then have c: "mag (direction ?line) = 1" by (rule mag_one)
  have d: "absSq ?d \<le> EPSILON \<longrightarrow> direction ?line = \<lparr>x = 1, y = 0\<rparr>"
    by (simp add: ensureDirection_def)
  have e: "absSq ?d > EPSILON \<longrightarrow> direction ?line = normalize_v ?d"
    by (simp add: ensureDirection_def)
  have f: "position other = position agent \<and>
         mag (sub (velocity agent) (velocity other)) \<le> EPSILON
         \<longrightarrow> direction ?line = \<lparr>x = 1, y = 0\<rparr>"
  proof
    assume h: "position other = position agent \<and>
         mag (sub (velocity agent) (velocity other)) \<le> EPSILON"
    then have "?d = zero" by (simp add: constraintParts_coincident)
    then show "direction ?line = \<lparr>x = 1, y = 0\<rparr>"
      by (simp add: ensureDirection_def absSq_def zero_def EPSILON_def)
  qed
  from a b c d e f show ?thesis by blast
qed

subsection \<open>One tick of the head-on scene\<close>

lemma hypot_axis: "hypot a 0 = \<bar>a\<bar>"
  by (simp add: hypot_def)

lemma mag_axis: "mag \<lparr>x = a, y = 0\<rparr> = \<bar>a\<bar>"
  by (simp add: mag_def hypot_axis)

lemma mag_axis_y: "mag \<lparr>x = 0, y = b\<rparr> = \<bar>b\<bar>"
  by (simp add: mag_def hypot_def)

lemma sqrt_4096_25: "sqrt (4096 / 25) = 64 / 5"
  by (rule real_sqrt_unique) (simp_all add: power2_eq_square)

lemma headOn_swap: "map swapGoalIfNeeded [headOnA, headOnB] = [headOnA, headOnB]"
  by (simp add: swapGoalIfNeeded_def headOnA_def headOnB_def target_def dist_v_def sub_def
        mag_axis)

lemma headOn_preferredA: "computePreferredVelocity headOnA = \<lparr>x = 80, y = 0\<rparr>"
  by (simp add: computePreferredVelocity_def headOnA_def target_def sub_def mag_axis Let_def
        mult_def limit_def)

lemma headOn_preferredB: "computePreferredVelocity headOnB = \<lparr>x = - 80, y = 0\<rparr>"
  by (simp add: computePreferredVelocity_def headOnB_def target_def sub_def mag_axis Let_def
        mult_def limit_def)

lemma headOn_partsA:
  "constraintParts (headOnA\<lparr>preferredVelocity := pa\<rparr>) (headOnB\<lparr>preferredVelocity := pb\<rparr>)
       (2 / 5) (1 / 20)
     = (\<lparr>x = 0, y = - 1\<rparr>, \<lparr>x = 12 / 25, y = 0\<rparr>)"
  by (simp add: constraintParts_def headOnA_def headOnB_def sub_def absSq_def mult_def dot_def
        Let_def sqrt_4096_25 EPSILON_def perp_def)

lemma headOn_partsB:
  "constraintParts (headOnB\<lparr>preferredVelocity := pb\<rparr>) (headOnA\<lparr>preferredVelocity := pa\<rparr>)
       (2 / 5) (1 / 20)
     = (\<lparr>x = 0, y = 1\<rparr>, \<lparr>x = - 12 / 25, y = 0\<rparr>)"
  by (simp add: constraintParts_def headOnA_def headOnB_def sub_def absSq_def mult_def dot_def
        Let_def sqrt_4096_25 EPSILON_def perp_def)

lemma ensureDirection_down: "ensureDirection \<lparr>x = 0, y = - 1\<rparr> = \<lparr>x = 0, y = - 1\<rparr>"
  by (simp add: ensureDirection_def absSq_def EPSILON_def normalize_v_def mag_axis_y mult_def)

lemma ensureDirection_up: "ensureDirection \<lparr>x = 0, y = 1\<rparr> = \<lparr>x = 0, y = 1\<rparr>"
  by (simp add: ensureDirection_def absSq_def EPSILON_def normalize_v_def mag_axis_y mult_def)

lemma headOn_lineA:
  "appendAgentConstraint (headOnA\<lparr>preferredVelocity := pa\<rparr>)
       (headOnB\<lparr>preferredVelocity := pb\<rparr>) [] (2 / 5) (1 / 20)
     = [\<lparr>point = \<lparr>x = 6 / 25, y = 0\<rparr>, direction = \<lparr>x = 0, y = - 1\<rparr>\<rparr>]"
  by (simp add: appendAgentConstraint_def headOn_partsA ensureDirection_down)
     (simp add: headOnA_def add_def mult_def)

lemma headOn_lineB:
  "appendAgentConstraint (headOnB\<lparr>preferredVelocity := pb\<rparr>)
       (headOnA\<lparr>preferredVelocity := pa\<rparr>) [] (2 / 5) (1 / 20)
     = [\<lparr>point = \<lparr>x = - (6 / 25), y = 0\<rparr>, direction = \<lparr>x = 0, y = 1\<rparr>\<rparr>]"
  by (simp add: appendAgentConstraint_def headOn_partsB ensureDirection_up)
     (simp add: headOnB_def add_def mult_def)

lemma headOn_lp2A:
  "linearProgram2 [\<lparr>point = \<lparr>x = 6 / 25, y = 0\<rparr>, direction = \<lparr>x = 0, y = - 1\<rparr>\<rparr>] 100
       \<lparr>x = 80, y = 0\<rparr> False
     = Inr (1, \<lparr>x = 80, y = 0\<rparr>)"
proof -
  let ?ls = "[\<lparr>point = \<lparr>x = 6 / 25, y = 0\<rparr>, direction = \<lparr>x = 0, y = - 1 :: real\<rparr>\<rparr>]"
  have nv: "\<not> violates (?ls ! 0) \<lparr>x = 80, y = 0\<rparr>"
    by (simp add: violates_def det_def sub_def)
  have "lp2Loop ?ls 100 \<lparr>x = 80, y = 0\<rparr> False 0 \<lparr>x = 80, y = 0\<rparr>
          = lp2Loop ?ls 100 \<lparr>x = 80, y = 0\<rparr> False (0 + 1) \<lparr>x = 80, y = 0\<rparr>"
    by (rule lp2Loop_skip[OF _ nv]) simp
  also have "\<dots> = Inr (1, \<lparr>x = 80, y = 0\<rparr>)"
    by (simp add: lp2Loop_end)
  finally show ?thesis
    by (simp add: linearProgram2_def absSq_def)
qed

lemma headOn_lp2B:
  "linearProgram2 [\<lparr>point = \<lparr>x = - (6 / 25), y = 0\<rparr>, direction = \<lparr>x = 0, y = 1\<rparr>\<rparr>] 100
       \<lparr>x = - 80, y = 0\<rparr> False
     = Inr (1, \<lparr>x = - 80, y = 0\<rparr>)"
proof -
  let ?ls = "[\<lparr>point = \<lparr>x = - (6 / 25), y = 0\<rparr>, direction = \<lparr>x = 0, y = 1 :: real\<rparr>\<rparr>]"
  have nv: "\<not> violates (?ls ! 0) \<lparr>x = - 80, y = 0\<rparr>"
    by (simp add: violates_def det_def sub_def)
  have "lp2Loop ?ls 100 \<lparr>x = - 80, y = 0\<rparr> False 0 \<lparr>x = - 80, y = 0\<rparr>
          = lp2Loop ?ls 100 \<lparr>x = - 80, y = 0\<rparr> False (0 + 1) \<lparr>x = - 80, y = 0\<rparr>"
    by (rule lp2Loop_skip[OF _ nv]) simp
  also have "\<dots> = Inr (1, \<lparr>x = - 80, y = 0\<rparr>)"
    by (simp add: lp2Loop_end)
  finally show ?thesis
    by (simp add: linearProgram2_def absSq_def)
qed

lemma headOn_table:
  "buildNeighborTable [headOnA, headOnB] 48400
     = [[\<lparr>index = Suc 0, distSq = 1024\<rparr>], [\<lparr>index = 0, distSq = 1024\<rparr>]]"
proof -
  have u2: "[0 ..< 2] = [0, Suc 0]" "[0 + 1 ..< 2] = [Suc 0]" "[Suc 0 + 1 ..< 2] = []"
    by (simp_all add: upt_rec)
  have ds: "absSq (sub (position ([headOnA, headOnB] ! 0)) (position ([headOnA, headOnB] ! Suc 0)))
              = 1024"
    by (simp add: headOnA_def headOnB_def sub_def absSq_def)
  have ins: "insertNeighbor [] nb = [nb]" for nb
    by (simp add: insertNeighbor_def maxNeighbors_def)
  have st: "neighborStep [headOnA, headOnB] 48400 0 (Suc 0) [[], []]
              = [[\<lparr>index = Suc 0, distSq = 1024\<rparr>], [\<lparr>index = 0, distSq = 1024\<rparr>]]"
    unfolding neighborStep_def ds by (simp add: ins)
  have r: "replicate (length [headOnA, headOnB]) [] = [[], []]"
    by (simp add: numeral_2_eq_2)
  show ?thesis
    unfolding buildNeighborTable_def r
    by (simp add: u2 st)
qed

lemma headOn_solveA:
  "solveAgent [headOnA, headOnB]
       [[\<lparr>index = Suc 0, distSq = 1024\<rparr>], [\<lparr>index = 0, distSq = 1024\<rparr>]] (2 / 5) (1 / 20) 0
     = Inr ([headOnA\<lparr>preferredVelocity := \<lparr>x = 80, y = 0\<rparr>\<rparr>, headOnB], \<lparr>x = 80, y = 0\<rparr>)"
proof -
  have ms: "maxSpeed (headOnA\<lparr>preferredVelocity := p\<rparr>) = 100" for p
    by (simp add: headOnA_def)
  have lim: "limit \<lparr>x = 80, y = 0\<rparr> 100 = \<lparr>x = 80, y = 0\<rparr>"
    by (simp add: limit_def mag_axis)
  have b: "headOnB = headOnB\<lparr>preferredVelocity := preferredVelocity headOnB\<rparr>" by simp
  have ln: "appendAgentConstraint (headOnA\<lparr>preferredVelocity := \<lparr>x = 80, y = 0\<rparr>\<rparr>)
       headOnB [] (2 / 5) (1 / 20)
     = [\<lparr>point = \<lparr>x = 6 / 25, y = 0\<rparr>, direction = \<lparr>x = 0, y = - 1\<rparr>\<rparr>]"
    by (subst b) (rule headOn_lineA)
  show ?thesis
    by (simp add: solveAgent_def Let_def headOn_preferredA ln headOn_lp2A ms lim)
qed

lemma headOn_solveB:
  "solveAgent [headOnA\<lparr>preferredVelocity := \<lparr>x = 80, y = 0\<rparr>\<rparr>, headOnB]
       [[\<lparr>index = Suc 0, distSq = 1024\<rparr>], [\<lparr>index = 0, distSq = 1024\<rparr>]] (2 / 5) (1 / 20) (Suc 0)
     = Inr ([headOnA\<lparr>preferredVelocity := \<lparr>x = 80, y = 0\<rparr>\<rparr>,
             headOnB\<lparr>preferredVelocity := \<lparr>x = - 80, y = 0\<rparr>\<rparr>], \<lparr>x = - 80, y = 0\<rparr>)"
proof -
  have ms: "maxSpeed (headOnB\<lparr>preferredVelocity := p\<rparr>) = 100" for p
    by (simp add: headOnB_def)
  have lim: "limit \<lparr>x = - 80, y = 0\<rparr> 100 = \<lparr>x = - 80, y = 0\<rparr>"
    by (simp add: limit_def mag_axis)
  show ?thesis
    by (simp add: solveAgent_def Let_def headOn_preferredB headOn_lineB headOn_lp2B ms lim)
qed

lemma update_advance:
  assumes "0 < deltaTime" and "agents m \<noteq> []" and "dt = min deltaTime 0.05"
  shows "update deltaTime m
       = (case computeVelocities
                 (buildNeighborTable (map swapGoalIfNeeded (agents m)) (neighborRadiusSqOf m))
                 (invTimeHorizonOf m) dt
                 [0 ..< length (agents m)] (map swapGoalIfNeeded (agents m)) [] of
            Inl e \<Rightarrow> Inl e
          | Inr (store, newVelocities) \<Rightarrow>
              Inr (m\<lparr>agents := applyVelocities store newVelocities dt\<rparr>))"
  using assms(1,2) unfolding assms(3) update_def Let_def neighborRadiusSqOf_def invTimeHorizonOf_def
  by simp

lemma headOn_update:
  "update (1 / 20) headOnModel
     = Inr (headOnModel\<lparr>agents :=
         [headOnA\<lparr>preferredVelocity := \<lparr>x = 80, y = 0\<rparr>, velocity := \<lparr>x = 80, y = 0\<rparr>,
                  position := \<lparr>x = 4, y = 0\<rparr>\<rparr>,
          headOnB\<lparr>preferredVelocity := \<lparr>x = - 80, y = 0\<rparr>, velocity := \<lparr>x = - 80, y = 0\<rparr>,
                  position := \<lparr>x = 28, y = 0\<rparr>\<rparr>]\<rparr>)"
proof -
  have ags: "agents headOnModel = [headOnA, headOnB]"
    by (simp add: headOnModel_def)
  have u2: "[0 ..< length [headOnA, headOnB]] = [0, Suc 0]" by (simp add: upt_rec)
  have r2: "neighborRadiusSqOf headOnModel = 48400"
    by (simp add: neighborRadiusSqOf_def headOnModel_def DEFAULTS_neighborRadius_def
          pixelsPerMeter_def)
  have th: "invTimeHorizonOf headOnModel = 2 / 5"
    by (simp add: invTimeHorizonOf_def headOnModel_def DEFAULTS_timeHorizon_def)
  have dt: "(1 / 20 :: real) = min (1 / 20) 0.05" by simp
  have pa: "position headOnA = \<lparr>x = 0, y = 0\<rparr>" and pb: "position headOnB = \<lparr>x = 32, y = 0\<rparr>"
    by (simp_all add: headOnA_def headOnB_def)
  have cv: "computeVelocities
              [[\<lparr>index = Suc 0, distSq = 1024\<rparr>], [\<lparr>index = 0, distSq = 1024\<rparr>]] (2 / 5) (1 / 20)
              [0, Suc 0] [headOnA, headOnB] []
            = Inr ([headOnA\<lparr>preferredVelocity := \<lparr>x = 80, y = 0\<rparr>\<rparr>,
                    headOnB\<lparr>preferredVelocity := \<lparr>x = - 80, y = 0\<rparr>\<rparr>],
                   [\<lparr>x = 80, y = 0\<rparr>, \<lparr>x = - 80, y = 0\<rparr>])"
    by (simp add: headOn_solveA headOn_solveB)
  have ap: "applyVelocities [headOnA\<lparr>preferredVelocity := \<lparr>x = 80, y = 0\<rparr>\<rparr>,
                    headOnB\<lparr>preferredVelocity := \<lparr>x = - 80, y = 0\<rparr>\<rparr>]
                   [\<lparr>x = 80, y = 0\<rparr>, \<lparr>x = - 80, y = 0\<rparr>] (1 / 20)
            = [headOnA\<lparr>preferredVelocity := \<lparr>x = 80, y = 0\<rparr>, velocity := \<lparr>x = 80, y = 0\<rparr>,
                  position := \<lparr>x = 4, y = 0\<rparr>\<rparr>,
          headOnB\<lparr>preferredVelocity := \<lparr>x = - 80, y = 0\<rparr>, velocity := \<lparr>x = - 80, y = 0\<rparr>,
                  position := \<lparr>x = 28, y = 0\<rparr>\<rparr>]"
    by (simp add: applyVelocities_def pa pb add_def mult_def)
  have pos: "0 < (1 / 20 :: real)" and ne: "agents headOnModel \<noteq> []"
    by (simp_all add: ags)
  show ?thesis
    unfolding update_advance[OF pos ne dt] ags headOn_swap r2 th headOn_table u2 cv
    by (simp add: ap)
qed

text \<open>
  Two instances of the lemma on the constraint builder: an agent paired with a copy of
  itself at the same place (zero relative displacement and velocity) gets the fallback
  direction, and the first agent of the head-on scene paired with the second gets the unit
  direction \<open>(0, -1)\<close>.
\<close>

lemma appendAgentConstraint_direction_exact_headOn:
  "position headOnA = position headOnA
   \<and> mag (sub (velocity headOnA) (velocity headOnA)) \<le> EPSILON
   \<and> length (appendAgentConstraint headOnA headOnA [] (2 / 5) (1 / 20)) = 1
   \<and> direction (last (appendAgentConstraint headOnA headOnA [] (2 / 5) (1 / 20)))
       = \<lparr>x = 1, y = 0\<rparr>
   \<and> EPSILON < absSq (fst (constraintParts headOnA headOnB (2 / 5) (1 / 20)))
   \<and> direction (last (appendAgentConstraint headOnA headOnB [] (2 / 5) (1 / 20)))
       = \<lparr>x = 0, y = - 1\<rparr>
   \<and> absSq \<lparr>x = 0, y = - 1\<rparr> = 1"
proof -
  have z: "mag (sub (velocity headOnA) (velocity headOnA)) \<le> EPSILON"
    by (simp add: sub_def mag_axis EPSILON_def)
  from appendAgentConstraint_direction_exact[of headOnA headOnA "[]" "2 / 5" "1 / 20"] z
  obtain line where
    l1: "appendAgentConstraint headOnA headOnA [] (2 / 5) (1 / 20) = [] @ [line]"
      "direction line = \<lparr>x = 1, y = 0\<rparr>"
    by auto
  have pa: "headOnA = headOnA\<lparr>preferredVelocity := preferredVelocity headOnA\<rparr>"
    "headOnB = headOnB\<lparr>preferredVelocity := preferredVelocity headOnB\<rparr>" by simp_all
  have parts: "constraintParts headOnA headOnB (2 / 5) (1 / 20)
                 = (\<lparr>x = 0, y = - 1\<rparr>, \<lparr>x = 12 / 25, y = 0\<rparr>)"
    by (subst pa(1), subst pa(2)) (rule headOn_partsA)
  have big: "EPSILON < absSq (fst (constraintParts headOnA headOnB (2 / 5) (1 / 20)))"
    by (simp add: parts absSq_def EPSILON_def)
  have nrm: "normalize_v \<lparr>x = 0, y = - 1\<rparr> = \<lparr>x = 0, y = - 1\<rparr>"
    by (simp add: normalize_v_def mag_axis_y mult_def)
  from appendAgentConstraint_direction_exact[of headOnA headOnB "[]" "2 / 5" "1 / 20"] big
  obtain line2 where
    l2: "appendAgentConstraint headOnA headOnB [] (2 / 5) (1 / 20) = [] @ [line2]"
      "direction line2 = normalize_v (fst (constraintParts headOnA headOnB (2 / 5) (1 / 20)))"
      "absSq (direction line2) = 1"
    by auto
  from l2(2) have d2: "direction line2 = \<lparr>x = 0, y = - 1\<rparr>" by (simp add: parts nrm)
  with l2(3) have u: "absSq \<lparr>x = 0, y = - 1\<rparr> = 1" by simp
  from z l1 l2(1) d2 u big show ?thesis by simp
qed

subsection \<open>Rounding to double precision\<close>

text \<open>
  Rounding moves a number by at most half a unit in the last place, a relative error of
  at most \<open>2^-53\<close>; it fixes the doubles, and on a number whose binade is known it can be
  computed.
\<close>

lemma rne_error: "\<bar>of_int (rne v) - v\<bar> \<le> 1 / 2"
proof -
  have "of_int \<lfloor>v\<rfloor> \<le> v" "v < of_int \<lfloor>v\<rfloor> + 1" by linarith+
  then show ?thesis by (auto simp: rne_def Let_def)
qed

lemma rne_of_int: "rne (of_int k) = k"
  by (simp add: rne_def)

lemma rne_near:
  "\<bar>v - of_int k\<bar> < 1 / 2 \<Longrightarrow> rne v = k"
proof -
  assume a: "\<bar>v - of_int k\<bar> < 1 / 2"
  show ?thesis
  proof (cases "of_int k \<le> v")
    case True
    from a True have "v < of_int k + 1" by linarith
    with True have "\<lfloor>v\<rfloor> = k" by (intro floor_unique)
    with a True show ?thesis by (simp add: rne_def)
  next
    case False
    have e: "real_of_int (k - 1) = of_int k - 1" by simp
    from a False have "of_int k - 1 \<le> v" "v < of_int k - 1 + 1" by linarith+
    then have f: "\<lfloor>v\<rfloor> = k - 1" unfolding e[symmetric] by (intro floor_unique)
    from a False have "v - (of_int k - 1) > 1 / 2" by linarith
    with f e show ?thesis by (simp add: rne_def)
  qed
qed

lemma ulp_pos: "0 < ulp v"
  by (simp add: ulp_def)

lemma expo_le: "v \<noteq> 0 \<Longrightarrow> 2 powr of_int (expo v) \<le> \<bar>v\<bar>"
proof -
  assume "v \<noteq> 0"
  then have p: "0 < \<bar>v\<bar>" by simp
  have "of_int (expo v) \<le> log 2 \<bar>v\<bar>" by (simp add: expo_def)
  then have "2 powr of_int (expo v) \<le> 2 powr log 2 \<bar>v\<bar>" by simp
  also have "\<dots> = \<bar>v\<bar>" using p by simp
  finally show ?thesis .
qed

lemma ulp_eq: "ulp v = 2 powr of_int (expo v) / 2 ^ 52"
proof -
  have "(2::real) powr 52 = 2 ^ 52" by (rule powr_numeral) simp
  then show ?thesis unfolding ulp_def powr_diff by (simp only:)
qed

lemma fl_error: "\<bar>fl v - v\<bar> \<le> \<bar>v\<bar> / 2 ^ 53"
proof (cases "v = 0")
  case True
  then show ?thesis by (simp add: fl_def)
next
  case False
  let ?u = "ulp v"
  have u: "0 < ?u" by (rule ulp_pos)
  have "fl v - v = (of_int (rne (v / ?u)) - v / ?u) * ?u"
    using False u by (simp add: fl_def algebra_simps)
  then have "\<bar>fl v - v\<bar> = \<bar>of_int (rne (v / ?u)) - v / ?u\<bar> * ?u"
    using u by (simp add: abs_mult)
  also have "\<dots> \<le> 1 / 2 * ?u"
    using rne_error[of "v / ?u"] u by (intro mult_right_mono) simp_all
  also have "1 / 2 * ?u = 2 powr of_int (expo v) / (2 * 2 ^ 52)"
    unfolding ulp_eq by (simp only: times_divide_times_eq mult_1)
  also have "(2::real) * 2 ^ 52 = 2 ^ 53" by (simp only: power_Suc[symmetric]) simp
  also have "2 powr of_int (expo v) / 2 ^ 53 \<le> \<bar>v\<bar> / 2 ^ 53"
    using expo_le[OF False] by (rule divide_right_mono) simp
  finally show ?thesis .
qed

lemma fl_zero: "fl 0 = 0"
  by (simp add: fl_def)

lemma fl_rel: "\<bar>fl v - v\<bar> \<le> unitRoundoff * \<bar>v\<bar>"
  using fl_error[of v] by (simp add: unitRoundoff_def)

lemma unitRoundoff_bounds: "0 < unitRoundoff" "unitRoundoff < 1"
  by (simp_all add: unitRoundoff_def)

lemma fl_bounds:
  "(1 - unitRoundoff) * \<bar>v\<bar> \<le> \<bar>fl v\<bar>" "\<bar>fl v\<bar> \<le> (1 + unitRoundoff) * \<bar>v\<bar>"
proof -
  have "\<bar>v\<bar> - \<bar>fl v - v\<bar> \<le> \<bar>fl v\<bar>" "\<bar>fl v\<bar> \<le> \<bar>v\<bar> + \<bar>fl v - v\<bar>" by linarith+
  with fl_rel[of v] show "(1 - unitRoundoff) * \<bar>v\<bar> \<le> \<bar>fl v\<bar>" "\<bar>fl v\<bar> \<le> (1 + unitRoundoff) * \<bar>v\<bar>"
    by (simp_all add: algebra_simps)
qed

lemma fl_nonneg: "0 \<le> v \<Longrightarrow> 0 \<le> fl v"
proof -
  assume v: "0 \<le> v"
  have "unitRoundoff * \<bar>v\<bar> \<le> 1 * \<bar>v\<bar>"
    using unitRoundoff_bounds by (intro mult_right_mono) simp_all
  with fl_rel[of v] v show ?thesis by simp
qed

lemma fl_eq_zero_iff: "fl v = 0 \<longleftrightarrow> v = 0"
proof
  assume z: "fl v = 0"
  show "v = 0"
  proof (rule ccontr)
    assume nz: "v \<noteq> 0"
    then have "unitRoundoff * \<bar>v\<bar> < 1 * \<bar>v\<bar>"
      using unitRoundoff_bounds by (intro mult_strict_right_mono) simp_all
    with fl_rel[of v] z show False by simp
  qed
qed (simp add: fl_zero)

lemma fl_unfold:
  assumes "v \<noteq> 0" and "0 < c" and "0 < p" and "ulp v = p / c"
  shows "fl v = of_int (rne (v * c / p)) * p / c"
  using assms by (simp add: fl_def)

lemma fl_eval:
  assumes p: "p = 2 powr of_int e" and lo: "p \<le> \<bar>v\<bar>" and hi: "\<bar>v\<bar> < 2 * p"
  shows "fl v = of_int (rne (v * 2 ^ 52 / p)) * p / 2 ^ 52"
proof -
  have pp: "0 < p" by (simp add: p)
  with lo have nz: "v \<noteq> 0" by auto
  have "2 powr (of_int e + 1) = 2 * p" by (simp add: p powr_add)
  with lo hi p have "\<lfloor>log 2 \<bar>v\<bar>\<rfloor> = e"
    using pp by (subst floor_log_eq_powr_iff) simp_all
  then have "ulp v = p / 2 ^ 52" unfolding ulp_eq expo_def p by (simp only:)
  from fl_unfold[OF nz _ pp this] show ?thesis by simp
qed

lemma fl_eval_up:
  assumes "2 ^ n \<le> \<bar>v\<bar>" and "\<bar>v\<bar> < 2 * 2 ^ n"
  shows "fl v = of_int (rne (v * 2 ^ 52 / 2 ^ n)) * 2 ^ n / 2 ^ 52"
proof -
  have "(2::real) ^ n = 2 powr of_int (int n)" by (simp add: powr_realpow)
  from fl_eval[OF this assms] show ?thesis .
qed

lemma fl_eval_down:
  assumes "1 / 2 ^ n \<le> \<bar>v\<bar>" and "\<bar>v\<bar> < 2 * (1 / 2 ^ n)"
  shows "fl v = of_int (rne (v * 2 ^ 52 / (1 / 2 ^ n))) * (1 / 2 ^ n) / 2 ^ 52"
proof -
  have "1 / (2::real) ^ n = 2 powr of_int (- int n)"
    by (simp add: powr_minus powr_realpow divide_inverse)
  from fl_eval[OF this assms] show ?thesis .
qed

lemma cancel_scale: "(a::real) \<noteq> 0 \<Longrightarrow> m * (a * b) / a = m * b"
  by simp

lemma fl_int:
  assumes "\<bar>m\<bar> < 2 ^ 53"
  shows "fl (of_int m) = of_int m"
proof (cases "m = 0")
  case True
  then show ?thesis by (simp add: fl_zero)
next
  case False
  then have "1 \<le> nat \<bar>m\<bar>" by simp
  from ex_power_ivl1[OF _ this, of 2] obtain n where
    n: "2 ^ n \<le> nat \<bar>m\<bar>" "nat \<bar>m\<bar> < 2 ^ (n + 1)" by auto
  from n(1) have "int (2 ^ n) \<le> \<bar>m\<bar>" by linarith
  then have lo: "2 ^ n \<le> \<bar>m\<bar>" by simp
  from n(2) have "\<bar>m\<bar> < int (2 ^ (n + 1))" by linarith
  then have hi: "\<bar>m\<bar> < 2 * 2 ^ n" by simp
  have "(2::int) ^ n < 2 ^ 53" by (rule le_less_trans[OF lo assms])
  then have n53: "n < 53" by (rule power_less_imp_less_exp[rotated]) simp
  define d where "d = 52 - n"
  from n53 have nd: "n + d = 52" by (simp add: d_def)
  have split: "(2::real) ^ 52 = 2 ^ n * 2 ^ d"
    by (simp only: power_add[symmetric] nd)
  have "real_of_int (2 ^ n) \<le> real_of_int \<bar>m\<bar>" using lo by (simp only: of_int_le_iff)
  then have rlo: "2 ^ n \<le> \<bar>real_of_int m\<bar>" by simp
  have "real_of_int \<bar>m\<bar> < real_of_int (2 * 2 ^ n)" using hi by (simp only: of_int_less_iff)
  then have rhi: "\<bar>real_of_int m\<bar> < 2 * 2 ^ n" by simp
  have pos: "(2::real) ^ n \<noteq> 0" by simp
  have "real_of_int m * 2 ^ 52 / 2 ^ n = real_of_int m * 2 ^ d"
    unfolding split by (rule cancel_scale[OF pos])
  also have "\<dots> = of_int (m * 2 ^ d)" by simp
  finally have q: "real_of_int m * 2 ^ 52 / 2 ^ n = of_int (m * 2 ^ d)" .
  have "fl (of_int m) = of_int (m * 2 ^ d) * 2 ^ n / 2 ^ 52"
    unfolding fl_eval_up[OF rlo rhi] q rne_of_int ..
  also have "\<dots> = of_int m * (2 ^ n * 2 ^ d) / (2 ^ n * 2 ^ d)"
    unfolding split by (simp only: of_int_mult of_int_power of_int_numeral mult_ac)
  also have "\<dots> = of_int m"
    using pos by simp
  finally show ?thesis .
qed

lemma fl_numeral:
  "numeral k < (9007199254740992::int) \<Longrightarrow> fl (numeral k) = numeral k"
  "numeral k < (9007199254740992::int) \<Longrightarrow> fl (- numeral k) = - numeral k"
  "fl 1 = 1" "fl (- 1) = - 1"
  using fl_int[of "numeral k"] fl_int[of "- numeral k"] fl_int[of 1] fl_int[of "- 1"]
  by simp_all

lemma expo_scale:
  assumes "v \<noteq> 0"
  shows "expo (v * 2 powr of_int j) = expo v + j"
proof -
  from assms have p: "0 < \<bar>v\<bar>" by simp
  have "\<bar>v * 2 powr of_int j\<bar> = \<bar>v\<bar> * 2 powr of_int j" by (simp add: abs_mult)
  then have "log 2 \<bar>v * 2 powr of_int j\<bar> = log 2 \<bar>v\<bar> + of_int j"
    using p by (simp add: log_mult)
  then show ?thesis by (simp add: expo_def)
qed

lemma fl_scale: "fl (v * 2 powr of_int j) = fl v * 2 powr of_int j"
proof (cases "v = 0")
  case True
  then show ?thesis by (simp add: fl_zero)
next
  case False
  have "ulp (v * 2 powr of_int j) = 2 powr (of_int (expo v) - 52 + of_int j)"
    unfolding ulp_def expo_scale[OF False] by (simp add: algebra_simps)
  then have u: "ulp (v * 2 powr of_int j) = ulp v * 2 powr of_int j"
    by (simp add: ulp_def powr_add)
  have q: "v * 2 powr of_int j / (ulp v * 2 powr of_int j) = v / ulp v"
    by simp
  from False show ?thesis
    unfolding fl_def u q by simp
qed

lemma fl_representable:
  assumes "\<bar>k\<bar> < 2 ^ 53"
  shows "fl (of_int k * 2 powr of_int j) = of_int k * 2 powr of_int j"
  unfolding fl_scale fl_int[OF assms] ..

lemma rne_bounded:
  assumes "\<bar>t\<bar> \<le> of_int N"
  shows "\<bar>rne t\<bar> \<le> N"
proof -
  from assms have t: "- of_int N \<le> t" "t \<le> of_int N" by linarith+
  from t(1) have lo: "- N \<le> \<lfloor>t\<rfloor>" by (simp add: le_floor_iff)
  from t(2) have hi: "\<lfloor>t\<rfloor> \<le> N" by (simp add: floor_le_iff)
  have up: "rne t \<le> N"
  proof (cases "\<lfloor>t\<rfloor> = N")
    case True
    with t(2) have "t = of_int N" by (metis of_int_floor_le order.antisym)
    then show ?thesis by (simp add: rne_of_int)
  next
    case False
    with hi have "\<lfloor>t\<rfloor> + 1 \<le> N" by simp
    then show ?thesis using hi by (simp add: rne_def Let_def)
  qed
  have "\<lfloor>t\<rfloor> \<le> rne t" by (simp add: rne_def Let_def)
  with lo up show ?thesis by linarith
qed

lemma fl_form:
  assumes "v \<noteq> 0"
  shows "\<exists>k. fl v = of_int k * 2 powr of_int (expo v - 52) \<and> \<bar>k\<bar> \<le> 2 ^ 53"
proof -
  from assms have p: "0 < \<bar>v\<bar>" by simp
  have ue: "ulp v = 2 powr of_int (expo v - 52)" by (simp add: ulp_def)
  have "log 2 \<bar>v\<bar> < of_int (expo v) + 1" by (simp add: expo_def)
  then have "2 powr log 2 \<bar>v\<bar> < 2 powr (of_int (expo v) + 1)" by simp
  with p have "\<bar>v\<bar> < 2 powr (of_int (expo v) + 1)" by simp
  also have "\<dots> = ulp v * 2 ^ 53"
  proof -
    have "(2::real) powr 53 = 2 ^ 53" by (rule powr_numeral) simp
    moreover have "(2::real) powr (of_int (expo v) + 1) = 2 powr (of_int (expo v) - 52) * 2 powr 53"
    proof -
      have "real_of_int (expo v) + 1 = (of_int (expo v) - 52) + 53" by simp
      then show ?thesis by (simp only: powr_add)
    qed
    ultimately show ?thesis by (simp only: ulp_def)
  qed
  finally have "\<bar>v\<bar> / ulp v < 2 ^ 53" using ulp_pos[of v] by (simp add: field_simps)
  then have "\<bar>v / ulp v\<bar> \<le> of_int (2 ^ 53)" using ulp_pos[of v] by simp
  from rne_bounded[OF this] have "\<bar>rne (v / ulp v)\<bar> \<le> 2 ^ 53" .
  with assms ue show ?thesis by (auto simp: fl_def)
qed

lemma fl_idem: "fl (fl v) = fl v"
proof (cases "v = 0")
  case True
  then show ?thesis by (simp add: fl_zero)
next
  case False
  from fl_form[OF False] obtain k where
    k: "fl v = of_int k * 2 powr of_int (expo v - 52)" "\<bar>k\<bar> \<le> 2 ^ 53" by blast
  show ?thesis
  proof (cases "\<bar>k\<bar> < 2 ^ 53")
    case True
    show ?thesis unfolding k(1) by (rule fl_representable[OF True])
  next
    case F: False
    with k(2) have "\<bar>k\<bar> = 2 ^ 53" by simp
    then consider "k = 2 ^ 53" | "k = - (2 ^ 53)" by linarith
    moreover have p53: "(2::real) powr 53 = 2 ^ 53" by (rule powr_numeral) simp
    have sh: "(2::real) ^ 53 * 2 powr of_int (expo v - 52) = 2 powr of_int (expo v - 52 + 53)"
      unfolding p53[symmetric] of_int_add powr_add by (simp only: mult.commute of_int_numeral)
    ultimately have "\<exists>s. \<bar>s\<bar> < (2::int) ^ 53 \<and>
                 fl v = of_int s * 2 powr of_int (expo v - 52 + 53)"
    proof cases
      case 1
      have "fl v = 2 ^ 53 * 2 powr of_int (expo v - 52)"
        unfolding k(1) 1 by (simp only: of_int_power of_int_numeral)
      then have "fl v = of_int 1 * 2 powr of_int (expo v - 52 + 53)"
        unfolding sh by (simp only: of_int_1 mult_1)
      then show ?thesis by (intro exI[of _ 1]) simp
    next
      case 2
      have "fl v = - (2 ^ 53 * 2 powr of_int (expo v - 52))"
        unfolding k(1) 2 by (simp only: of_int_power of_int_numeral of_int_minus mult_minus_left)
      then have "fl v = of_int (- 1) * 2 powr of_int (expo v - 52 + 53)"
        unfolding sh by (simp only: of_int_1 of_int_minus mult_minus_left mult_1)
      then show ?thesis by (intro exI[of _ "- 1"]) simp
    qed
    then obtain s where s: "\<bar>s\<bar> < (2::int) ^ 53"
      "fl v = of_int s * 2 powr of_int (expo v - 52 + 53)" by blast
    show ?thesis unfolding s(2) by (rule fl_representable[OF s(1)])
  qed
qed

subsection \<open>The constraint builder in double arithmetic\<close>

text \<open>
  Normalizing in double arithmetic: the length is divided by a rounded length, through a
  rounded reciprocal and two rounded products, so the squared length of the result is
  within \<open>2^-48\<close> of one.
\<close>

lemma accurateHypot_bounds:
  assumes "accurateHypot hyp"
  shows "(1 - 1 / 2 ^ 50) * sqrt (a * a + b * b) \<le> hyp a b"
    and "hyp a b \<le> (1 + 1 / 2 ^ 50) * sqrt (a * a + b * b)"
proof -
  from assms have "\<bar>hyp a b - sqrt (a * a + b * b)\<bar> \<le> sqrt (a * a + b * b) / 2 ^ 50"
    by (simp add: accurateHypot_def)
  then have "\<bar>hyp a b - sqrt (a * a + b * b)\<bar> \<le> 1 / 2 ^ 50 * sqrt (a * a + b * b)" by simp
  then show "(1 - 1 / 2 ^ 50) * sqrt (a * a + b * b) \<le> hyp a b"
    and "hyp a b \<le> (1 + 1 / 2 ^ 50) * sqrt (a * a + b * b)"
    unfolding left_diff_distrib distrib_right by linarith+
qed

lemma accurateHypot_rounded: "accurateHypot hypotRounded"
proof -
  have "\<bar>fl s - s\<bar> \<le> s / 2 ^ 50" if "0 \<le> s" for s
  proof -
    have "\<bar>fl s - s\<bar> \<le> \<bar>s\<bar> / 2 ^ 53" by (rule fl_error)
    also have "\<dots> \<le> s / 2 ^ 50" using that by (simp add: field_simps)
    finally show ?thesis .
  qed
  then show ?thesis by (simp add: accurateHypot_def hypotRounded_def)
qed

lemma scaled_square:
  fixes t :: real
  assumes "c * a \<le> \<bar>t\<bar>" "\<bar>t\<bar> \<le> d * a" "0 \<le> c" "0 \<le> a"
  shows "c * c * (a * a) \<le> t * t" "t * t \<le> d * d * (a * a)"
proof -
  have ca: "0 \<le> c * a" using assms(3,4) by simp
  have "(c * a) * (c * a) \<le> \<bar>t\<bar> * \<bar>t\<bar>"
    by (rule mult_mono[OF assms(1) assms(1) _ ca]) simp
  then show "c * c * (a * a) \<le> t * t" by (simp add: mult_ac)
  have da: "0 \<le> d * a" using assms(2) abs_ge_zero[of t] by linarith
  have "\<bar>t\<bar> * \<bar>t\<bar> \<le> (d * a) * (d * a)"
    by (rule mult_mono[OF assms(2) assms(2) da]) simp
  then show "t * t \<le> d * d * (a * a)" by (simp add: mult_ac)
qed

lemma fl_product_bounds:
  fixes r :: real
  assumes q: "lo \<le> \<bar>r\<bar>" "\<bar>r\<bar> \<le> hi" and lo: "0 \<le> lo"
  shows "(1 - unitRoundoff) * lo * \<bar>a\<bar> \<le> \<bar>fl (a * r)\<bar>"
    and "\<bar>fl (a * r)\<bar> \<le> (1 + unitRoundoff) * hi * \<bar>a\<bar>"
proof -
  have u: "0 \<le> 1 - unitRoundoff" "0 \<le> 1 + unitRoundoff"
    using unitRoundoff_bounds by simp_all
  have "lo * \<bar>a\<bar> \<le> \<bar>r\<bar> * \<bar>a\<bar>" using q(1) by (intro mult_right_mono) simp_all
  then have "(1 - unitRoundoff) * (lo * \<bar>a\<bar>) \<le> (1 - unitRoundoff) * \<bar>a * r\<bar>"
    using u(1) by (intro mult_left_mono) (simp_all add: abs_mult mult.commute)
  also have "\<dots> \<le> \<bar>fl (a * r)\<bar>" by (rule fl_bounds)
  finally show "(1 - unitRoundoff) * lo * \<bar>a\<bar> \<le> \<bar>fl (a * r)\<bar>" by (simp add: mult.assoc)
  have "\<bar>fl (a * r)\<bar> \<le> (1 + unitRoundoff) * \<bar>a * r\<bar>" by (rule fl_bounds)
  also have "\<dots> \<le> (1 + unitRoundoff) * (hi * \<bar>a\<bar>)"
  proof (intro mult_left_mono u)
    have "\<bar>r\<bar> * \<bar>a\<bar> \<le> hi * \<bar>a\<bar>" using q(2) by (intro mult_right_mono) simp_all
    then show "\<bar>a * r\<bar> \<le> hi * \<bar>a\<bar>" by (simp add: abs_mult mult.commute)
  qed
  finally show "\<bar>fl (a * r)\<bar> \<le> (1 + unitRoundoff) * hi * \<bar>a\<bar>" by (simp add: mult.assoc)
qed

lemma rounding_constants:
  "1 - 1 / 2 ^ 48 \<le> ((1 - unitRoundoff) * (1 - unitRoundoff) / (1 + 1 / 2 ^ 50))
                        * ((1 - unitRoundoff) * (1 - unitRoundoff) / (1 + 1 / 2 ^ 50))"
  "((1 + unitRoundoff) * (1 + unitRoundoff) / (1 - 1 / 2 ^ 50))
     * ((1 + unitRoundoff) * (1 + unitRoundoff) / (1 - 1 / 2 ^ 50)) \<le> 1 + 1 / 2 ^ 48"
  by (simp_all add: unitRoundoff_def)

lemma normalize_fl_length:
  assumes acc: "accurateHypot hyp" and nz: "x v \<noteq> 0 \<or> y v \<noteq> 0"
  shows "\<bar>absSq (normalize_fl hyp v) - 1\<bar> \<le> 1 / 2 ^ 48"
proof -
  define s where "s = sqrt (x v * x v + y v * y v)"
  define m where "m = hyp (x v) (y v)"
  define r where "r = fl (1 / m)"
  define el where "el = 1 - (1 / 2 ^ 50 :: real)"
  define eh where "eh = 1 + (1 / 2 ^ 50 :: real)"
  define ul where "ul = 1 - unitRoundoff"
  define uh where "uh = 1 + unitRoundoff"
  have e: "0 < el" "0 < eh" by (simp_all add: el_def eh_def)
  have u: "0 < ul" "0 < uh" using unitRoundoff_bounds by (simp_all add: ul_def uh_def)
  from nz have "0 < x v * x v + y v * y v"
    by (metis add_pos_nonneg add_nonneg_pos zero_le_square not_real_square_gt_zero)
  then have s: "0 < s" by (simp add: s_def)
  have ss: "s * s = x v * x v + y v * y v"
    unfolding s_def by (simp add: add_nonneg_nonneg)
  from accurateHypot_bounds[OF acc, of "x v" "y v"]
  have mb: "el * s \<le> m" "m \<le> eh * s" by (simp_all add: m_def s_def el_def eh_def)
  from mb(1) e(1) s have m: "0 < m" by (meson less_le_trans mult_pos_pos)
  have els: "0 < el * s" "0 < eh * s" using e s by simp_all
  have inv: "1 / (eh * s) \<le> 1 / m" "1 / m \<le> 1 / (el * s)"
    using mb m els by (simp_all add: frac_le)
  have rb: "ul * (1 / m) \<le> \<bar>r\<bar>" "\<bar>r\<bar> \<le> uh * (1 / m)"
    using fl_bounds[of "1 / m"] m by (simp_all add: r_def ul_def uh_def)
  have lo: "ul / (eh * s) \<le> \<bar>r\<bar>"
  proof -
    have "ul * (1 / (eh * s)) \<le> ul * (1 / m)" using inv(1) u(1) by (intro mult_left_mono) simp_all
    with rb(1) show ?thesis by simp
  qed
  have hi: "\<bar>r\<bar> \<le> uh / (el * s)"
  proof -
    have "uh * (1 / m) \<le> uh * (1 / (el * s))" using inv(2) u(2) by (intro mult_left_mono) simp_all
    with rb(2) show ?thesis by simp
  qed
  have lo0: "0 \<le> ul / (eh * s)" using u e s by simp
  define C where "C = ul * (ul / (eh * s))"
  define D where "D = uh * (uh / (el * s))"
  have C0: "0 \<le> C" using u e s by (simp add: C_def)
  have comp: "C * C * (a * a) \<le> fl (a * r) * fl (a * r)"
             "fl (a * r) * fl (a * r) \<le> D * D * (a * a)" for a
  proof -
    from fl_product_bounds[OF lo hi lo0, of a]
    have b: "C * \<bar>a\<bar> \<le> \<bar>fl (a * r)\<bar>" "\<bar>fl (a * r)\<bar> \<le> D * \<bar>a\<bar>"
      by (simp_all add: C_def D_def ul_def uh_def)
    from scaled_square[OF b C0] show "C * C * (a * a) \<le> fl (a * r) * fl (a * r)"
             "fl (a * r) * fl (a * r) \<le> D * D * (a * a)" by simp_all
  qed
  have nf: "normalize_fl hyp v = \<lparr>x = fl (x v * r), y = fl (y v * r)\<rparr>"
    using m by (simp add: normalize_fl_def mag_fl_def m_def[symmetric] mult_fl_def r_def)
  have L: "absSq (normalize_fl hyp v) = fl (x v * r) * fl (x v * r) + fl (y v * r) * fl (y v * r)"
    by (simp add: nf absSq_def)
  have "C * C * (s * s) \<le> absSq (normalize_fl hyp v)"
    unfolding L ss distrib_left using comp(1)[of "x v"] comp(1)[of "y v"] by linarith
  moreover have "C * C * (s * s) = (ul * ul / eh) * (ul * ul / eh)"
    using s by (simp add: C_def field_simps)
  ultimately have low: "1 - 1 / 2 ^ 48 \<le> absSq (normalize_fl hyp v)"
    using rounding_constants(1) by (simp add: ul_def eh_def)
  have "absSq (normalize_fl hyp v) \<le> D * D * (s * s)"
    unfolding L ss distrib_left using comp(2)[of "x v"] comp(2)[of "y v"] by linarith
  moreover have "D * D * (s * s) = (uh * uh / el) * (uh * uh / el)"
    using s by (simp add: D_def field_simps)
  ultimately have high: "absSq (normalize_fl hyp v) \<le> 1 + 1 / 2 ^ 48"
    using rounding_constants(2) by (simp add: uh_def el_def)
  from low high show ?thesis by linarith
qed

lemma EPSILON_fl_bounds: "0 \<le> EPSILON_fl" "EPSILON_fl < 1 / 50000"
proof -
  show "0 \<le> EPSILON_fl" unfolding EPSILON_fl_def by (rule fl_nonneg) simp
  have "\<bar>fl (1 / 100000)\<bar> \<le> (1 + unitRoundoff) * \<bar>1 / 100000\<bar>" by (rule fl_bounds)
  also have "\<dots> < 2 * \<bar>1 / 100000 :: real\<bar>"
    using unitRoundoff_bounds by (intro mult_strict_right_mono) simp_all
  finally show "EPSILON_fl < 1 / 50000" by (simp add: EPSILON_fl_def)
qed

lemma absSq_fl_zero: "absSq_fl zero = 0"
  by (simp add: absSq_fl_def zero_def fl_zero)

lemma accurateHypot_zero: "accurateHypot hyp \<Longrightarrow> hyp 0 0 = 0"
  using accurateHypot_bounds[of hyp 0 0] by simp

lemma normalize_fl_zero: "accurateHypot hyp \<Longrightarrow> normalize_fl hyp zero = zero"
  by (simp add: normalize_fl_def mag_fl_def zero_def accurateHypot_zero)

lemma ensureDirection_fl_length:
  assumes acc: "accurateHypot hyp"
  shows "ensureDirection_fl hyp d = \<lparr>x = 1, y = 0\<rparr>
         \<or> \<bar>absSq (ensureDirection_fl hyp d) - 1\<bar> \<le> 1 / 2 ^ 48"
proof (cases "absSq_fl d \<le> EPSILON_fl")
  case True
  then show ?thesis by (simp add: ensureDirection_fl_def)
next
  case False
  have "x d \<noteq> 0 \<or> y d \<noteq> 0"
  proof (rule ccontr)
    assume "\<not> (x d \<noteq> 0 \<or> y d \<noteq> 0)"
    then have "absSq_fl d = 0" by (simp add: absSq_fl_def fl_zero)
    with False EPSILON_fl_bounds(1) show False by simp
  qed
  from normalize_fl_length[OF acc this] False show ?thesis
    by (simp add: ensureDirection_fl_def)
qed

lemma appendAgentConstraint_fl_eq:
  "appendAgentConstraint_fl hyp agent other lines invTimeHorizon dt
     = lines @ [\<lparr>point = add_fl (velocity agent)
                            (mult_fl (snd (constraintParts_fl hyp agent other invTimeHorizon dt)) 0.5),
                 direction = ensureDirection_fl hyp
                               (fst (constraintParts_fl hyp agent other invTimeHorizon dt))\<rparr>]"
  by (simp add: appendAgentConstraint_fl_def split: prod.splits)

lemma constraintParts_fl_coincident:
  assumes acc: "accurateHypot hyp"
    and p: "position other = position agent"
    and v: "mag_fl hyp (sub_fl (velocity agent) (velocity other)) \<le> EPSILON_fl"
  shows "fst (constraintParts_fl hyp agent other invTimeHorizon dt) = zero"
proof -
  have rp: "sub_fl (position other) (position agent) = zero"
    by (simp add: p sub_fl_def zero_def fl_zero)
  have z: "mult_fl zero c = zero" "perp zero = zero" for c
    by (simp_all add: zero_def mult_fl_def perp_def fl_zero)
  have w: "sub_fl (sub_fl a b) zero = sub_fl a b" for a b
    by (simp add: sub_fl_def zero_def fl_idem)
  have nc: "\<not> 0 > fl (fl (radius agent + radius other) * fl (radius agent + radius other))"
    using fl_nonneg[of "fl (radius agent + radius other) * fl (radius agent + radius other)"]
    by (simp add: not_less)
  from v have nw: "\<not> hyp (x (sub_fl (velocity agent) (velocity other)))
                        (y (sub_fl (velocity agent) (velocity other))) > EPSILON_fl"
    by (simp add: mag_fl_def)
  show ?thesis
    unfolding constraintParts_fl_def rp
    by (simp only: Let_def z w absSq_fl_zero normalize_fl_zero[OF acc] nc nw if_False fst_conv)
qed

text \<open>
  A run: two agents at rest, the neighbor at \<open>(-30, -40)\<close> from the agent, with the default
  time horizon, whose reciprocal is the double \<open>0.4\<close>. The builder takes the cut-off branch
  with \<open>w = (12, 16)\<close> of length 20; the reciprocal \<open>1 / 20\<close> rounds to the double
  \<open>0.05\<close>, \<open>12 * 0.05\<close> is a tie and rounds up to \<open>0.6000000000000001\<close>, and \<open>16 * 0.05\<close>
  is the double \<open>0.8\<close>. The length of the perpendicular rounds to one, so the final
  normalization keeps it.
\<close>

lemma sqrt_400: "sqrt 400 = 20"
  by (rule real_sqrt_unique) simp_all

lemma EPSILON_fl_small: "EPSILON_fl < 20" "EPSILON_fl < 1"
  using EPSILON_fl_bounds(2) by simp_all

lemmas fl_binades =
  fl_eval_up[of 0] fl_eval_up[of 3] fl_eval_up[of 4]
  fl_eval_down[of 1] fl_eval_down[of 2] fl_eval_down[of 5]

lemma rest_w:
  "mult_fl \<lparr>x = - 30, y = - 40\<rparr> (3602879701896397 / 9007199254740992) = \<lparr>x = - 12, y = - 16\<rparr>"
  by (simp add: mult_fl_def fl_binades rne_def)

lemma rest_unitW:
  "mult_fl \<lparr>x = 12, y = 16\<rparr> (fl (1 / 20))
     = \<lparr>x = 1351079888211149 / 2251799813685248, y = 3602879701896397 / 4503599627370496\<rparr>"
  by (simp add: mult_fl_def fl_binades rne_def)

lemma rest_parts:
  "fst (constraintParts_fl hyp (restingAgent \<lparr>x = 0, y = 0\<rparr>) (restingAgent \<lparr>x = - 30, y = - 40\<rparr>)
          (3602879701896397 / 9007199254740992) (1 / 64))
     = \<lparr>x = - (3602879701896397 / 4503599627370496), y = 1351079888211149 / 2251799813685248\<rparr>"
proof -
  have rp: "sub_fl \<lparr>x = - 30, y = - 40\<rparr> \<lparr>x = 0, y = 0\<rparr> = \<lparr>x = - 30, y = - 40\<rparr>"
    by (simp add: sub_fl_def fl_numeral)
  have rv: "sub_fl zero zero = zero"
    by (simp add: sub_fl_def zero_def fl_zero)
  have d: "absSq_fl \<lparr>x = - 30, y = - 40\<rparr> = 2500"
    by (simp add: absSq_fl_def fl_numeral)
  have cr: "fl (15 + 15) = 30" "fl (30 * 30) = 900"
    by (simp_all add: fl_numeral)
  have w: "sub_fl zero \<lparr>x = - 12, y = - 16\<rparr> = \<lparr>x = 12, y = 16\<rparr>"
    by (simp add: sub_fl_def zero_def fl_numeral)
  have wl: "absSq_fl \<lparr>x = 12, y = 16\<rparr> = 400"
    by (simp add: absSq_fl_def fl_numeral)
  have dp: "dot_fl \<lparr>x = 12, y = 16\<rparr> \<lparr>x = - 30, y = - 40\<rparr> = - 1000"
    by (simp add: dot_fl_def fl_numeral)
  have pr: "fl (- 1000 * - 1000) = 1000000" "fl (900 * 400) = 360000" "fl 20 = 20"
    by (simp_all add: fl_numeral)
  show ?thesis
    unfolding constraintParts_fl_def restingAgent_def
    by (simp add: Let_def rp rv d fl_numeral rest_w w wl dp sqrt_400 EPSILON_fl_small rest_unitW perp_def)
qed

lemma rest_absSq_fl:
  "absSq_fl \<lparr>x = - (3602879701896397 / 4503599627370496), y = 1351079888211149 / 2251799813685248\<rparr>
     = 4503599627370497 / 4503599627370496"
  by (simp add: absSq_fl_def fl_binades rne_def)

lemma rest_hypot:
  "hypotRounded (- (3602879701896397 / 4503599627370496)) (1351079888211149 / 2251799813685248) = 1"
proof -
  define L :: real where
    "L = - (3602879701896397 / 4503599627370496) * - (3602879701896397 / 4503599627370496)
         + 1351079888211149 / 2251799813685248 * (1351079888211149 / 2251799813685248)"
  have lo: "1 \<le> L" and hi: "L < (1 + 1 / 2 ^ 53) * (1 + 1 / 2 ^ 53)"
    by (simp_all add: L_def)
  from lo have s1: "1 \<le> sqrt L" by simp
  have "sqrt L < sqrt ((1 + 1 / 2 ^ 53) * (1 + 1 / 2 ^ 53))"
    using hi by (simp only: real_sqrt_less_iff)
  also have "\<dots> = 1 + 1 / 2 ^ 53" by (rule real_sqrt_unique) (simp_all add: power2_eq_square)
  finally have s2: "sqrt L < 1 + 1 / 2 ^ 53" .
  have b: "2 ^ 0 \<le> \<bar>sqrt L\<bar>" "\<bar>sqrt L\<bar> < 2 * 2 ^ 0" using s1 s2 by simp_all
  have "\<bar>sqrt L * 2 ^ 52 / 2 ^ 0 - of_int (2 ^ 52)\<bar> < 1 / 2"
    using s1 s2 by (simp add: field_simps)
  then have "rne (sqrt L * 2 ^ 52 / 2 ^ 0) = 2 ^ 52" by (rule rne_near)
  then have "fl (sqrt L) = 1" unfolding fl_eval_up[OF b] by simp
  then show ?thesis by (simp add: hypotRounded_def L_def)
qed

lemma rest_direction:
  "ensureDirection_fl hypotRounded
     \<lparr>x = - (3602879701896397 / 4503599627370496), y = 1351079888211149 / 2251799813685248\<rparr>
     = \<lparr>x = - (3602879701896397 / 4503599627370496), y = 1351079888211149 / 2251799813685248\<rparr>"
proof -
  have big: "\<not> 4503599627370497 \<le> EPSILON_fl * 4503599627370496"
    using EPSILON_fl_small(2) by linarith
  have keep: "mult_fl \<lparr>x = - (3602879701896397 / 4503599627370496),
                        y = 1351079888211149 / 2251799813685248\<rparr> 1
     = \<lparr>x = - (3602879701896397 / 4503599627370496), y = 1351079888211149 / 2251799813685248\<rparr>"
    by (simp add: mult_fl_def fl_binades rne_def)
  show ?thesis
    unfolding ensureDirection_fl_def rest_absSq_fl normalize_fl_def mag_fl_def
    by (simp add: big rest_hypot fl_numeral keep)
qed

text \<open>
  Claim C6, as amended. In double arithmetic, with a \<open>Math.hypot\<close> of relative error at
  most \<open>2^-50\<close>, \<open>appendAgentConstraint\<close> is a total function of the agent pair: it
  appends exactly one line to the list it is given. The direction of that line is the
  fallback \<open>(1, 0)\<close> when the computed direction has squared length at most \<open>1e-5\<close>, and
  the normalized computed direction otherwise, whose squared length is within \<open>2^-48\<close> of
  one. A neighbor at zero relative displacement (and relative speed at most \<open>1e-5\<close>)
  yields the fallback. In exact arithmetic the direction has length exactly one.
\<close>

theorem appendAgentConstraint_direction:
  assumes "accurateHypot hyp"
  shows "\<exists>line. appendAgentConstraint_fl hyp agent other lines invTimeHorizon dt = lines @ [line] \<and>
      (direction line = \<lparr>x = 1, y = 0\<rparr> \<or> \<bar>absSq (direction line) - 1\<bar> \<le> 1 / 2 ^ 48) \<and>
      (absSq_fl (fst (constraintParts_fl hyp agent other invTimeHorizon dt)) \<le> EPSILON_fl
         \<longrightarrow> direction line = \<lparr>x = 1, y = 0\<rparr>) \<and>
      (absSq_fl (fst (constraintParts_fl hyp agent other invTimeHorizon dt)) > EPSILON_fl
         \<longrightarrow> direction line
               = normalize_fl hyp (fst (constraintParts_fl hyp agent other invTimeHorizon dt))
             \<and> \<bar>absSq (direction line) - 1\<bar> \<le> 1 / 2 ^ 48) \<and>
      (position other = position agent \<and>
         mag_fl hyp (sub_fl (velocity agent) (velocity other)) \<le> EPSILON_fl
         \<longrightarrow> direction line = \<lparr>x = 1, y = 0\<rparr>) \<and>
      (\<exists>exact. appendAgentConstraint agent other lines invTimeHorizon dt = lines @ [exact] \<and>
         absSq (direction exact) = 1)"
proof -
  let ?d = "fst (constraintParts_fl hyp agent other invTimeHorizon dt)"
  let ?line = "\<lparr>point = add_fl (velocity agent)
                            (mult_fl (snd (constraintParts_fl hyp agent other invTimeHorizon dt)) 0.5),
                 direction = ensureDirection_fl hyp ?d\<rparr>"
  have a: "appendAgentConstraint_fl hyp agent other lines invTimeHorizon dt = lines @ [?line]"
    by (rule appendAgentConstraint_fl_eq)
  have b: "direction ?line = \<lparr>x = 1, y = 0\<rparr> \<or> \<bar>absSq (direction ?line) - 1\<bar> \<le> 1 / 2 ^ 48"
    using ensureDirection_fl_length[OF assms, of ?d] by simp
  have c: "absSq_fl ?d \<le> EPSILON_fl \<longrightarrow> direction ?line = \<lparr>x = 1, y = 0\<rparr>"
    by (simp add: ensureDirection_fl_def)
  have d: "absSq_fl ?d > EPSILON_fl
         \<longrightarrow> direction ?line = normalize_fl hyp ?d \<and> \<bar>absSq (direction ?line) - 1\<bar> \<le> 1 / 2 ^ 48"
  proof
    assume big: "absSq_fl ?d > EPSILON_fl"
    then have n: "ensureDirection_fl hyp ?d = normalize_fl hyp ?d"
      by (simp add: ensureDirection_fl_def)
    have "x ?d \<noteq> 0 \<or> y ?d \<noteq> 0"
    proof (rule ccontr)
      assume "\<not> (x ?d \<noteq> 0 \<or> y ?d \<noteq> 0)"
      then have "absSq_fl ?d = 0" by (simp add: absSq_fl_def fl_zero)
      with big EPSILON_fl_bounds(1) show False by simp
    qed
    from normalize_fl_length[OF assms this] n
    show "direction ?line = normalize_fl hyp ?d \<and> \<bar>absSq (direction ?line) - 1\<bar> \<le> 1 / 2 ^ 48"
      by simp
  qed
  have e: "position other = position agent \<and>
         mag_fl hyp (sub_fl (velocity agent) (velocity other)) \<le> EPSILON_fl
         \<longrightarrow> direction ?line = \<lparr>x = 1, y = 0\<rparr>"
  proof
    assume h: "position other = position agent \<and>
         mag_fl hyp (sub_fl (velocity agent) (velocity other)) \<le> EPSILON_fl"
    then have "?d = zero" by (simp add: constraintParts_fl_coincident[OF assms])
    then show "direction ?line = \<lparr>x = 1, y = 0\<rparr>"
      using EPSILON_fl_bounds(1) by (simp add: ensureDirection_fl_def absSq_fl_zero)
  qed
  have f: "\<exists>exact. appendAgentConstraint agent other lines invTimeHorizon dt = lines @ [exact] \<and>
         absSq (direction exact) = 1"
    using appendAgentConstraint_eq[of agent other lines invTimeHorizon dt]
    by (simp add: absSq_ensureDirection)
  from a b c d e f show ?thesis by blast
qed

text \<open>
  The claim as stated promises a direction of length exactly one. In the run above the
  direction is \<open>(-0.8, 0.6000000000000001)\<close>: it is not the fallback, its squared length
  exceeds one by about \<open>1.8e-16\<close>, and computed in doubles, as the helper \<open>absSq\<close> does,
  the squared length is \<open>1.0000000000000002\<close>.
\<close>

theorem appendAgentConstraint_unit_counterexample:
  "direction (last (appendAgentConstraint_fl hypotRounded
       (restingAgent \<lparr>x = 0, y = 0\<rparr>) (restingAgent \<lparr>x = - 30, y = - 40\<rparr>) []
       (3602879701896397 / 9007199254740992) (1 / 64)))
     = \<lparr>x = - (3602879701896397 / 4503599627370496), y = 1351079888211149 / 2251799813685248\<rparr>
   \<and> \<lparr>x = - (3602879701896397 / 4503599627370496), y = 1351079888211149 / 2251799813685248\<rparr>
       \<noteq> \<lparr>x = 1, y = 0\<rparr>
   \<and> absSq \<lparr>x = - (3602879701896397 / 4503599627370496), y = 1351079888211149 / 2251799813685248\<rparr>
       = 1 + 3602879701896397 / 20282409603651670423947251286016
   \<and> absSq \<lparr>x = - (3602879701896397 / 4503599627370496), y = 1351079888211149 / 2251799813685248\<rparr>
       \<noteq> 1
   \<and> absSq_fl \<lparr>x = - (3602879701896397 / 4503599627370496),
                 y = 1351079888211149 / 2251799813685248\<rparr>
       = 1 + 1 / 4503599627370496"
proof -
  have "direction (last (appendAgentConstraint_fl hypotRounded
       (restingAgent \<lparr>x = 0, y = 0\<rparr>) (restingAgent \<lparr>x = - 30, y = - 40\<rparr>) []
       (3602879701896397 / 9007199254740992) (1 / 64)))
     = \<lparr>x = - (3602879701896397 / 4503599627370496), y = 1351079888211149 / 2251799813685248\<rparr>"
    unfolding appendAgentConstraint_fl_eq by (simp add: rest_parts rest_direction)
  moreover have
    "absSq \<lparr>x = - (3602879701896397 / 4503599627370496), y = 1351079888211149 / 2251799813685248\<rparr>
       = 1 + 3602879701896397 / 20282409603651670423947251286016"
    by (simp add: absSq_def)
  moreover have
    "absSq_fl \<lparr>x = - (3602879701896397 / 4503599627370496),
                 y = 1351079888211149 / 2251799813685248\<rparr>
       = 1 + 1 / 4503599627370496"
    by (simp add: rest_absSq_fl)
  ultimately show ?thesis by simp
qed

text \<open>
  Two instances of the theorem, with the correctly rounded \<open>Math.hypot\<close>: the run above,
  and an agent paired with a copy of itself at the same place, which gets the fallback.
\<close>

theorem appendAgentConstraint_direction_witness:
  "accurateHypot hypotRounded
   \<and> EPSILON_fl < absSq_fl (fst (constraintParts_fl hypotRounded
         (restingAgent \<lparr>x = 0, y = 0\<rparr>) (restingAgent \<lparr>x = - 30, y = - 40\<rparr>)
         (3602879701896397 / 9007199254740992) (1 / 64)))
   \<and> direction (last (appendAgentConstraint_fl hypotRounded
         (restingAgent \<lparr>x = 0, y = 0\<rparr>) (restingAgent \<lparr>x = - 30, y = - 40\<rparr>) []
         (3602879701896397 / 9007199254740992) (1 / 64)))
       = normalize_fl hypotRounded
           \<lparr>x = - (3602879701896397 / 4503599627370496), y = 1351079888211149 / 2251799813685248\<rparr>
   \<and> \<bar>absSq (normalize_fl hypotRounded
           \<lparr>x = - (3602879701896397 / 4503599627370496),
            y = 1351079888211149 / 2251799813685248\<rparr>) - 1\<bar> \<le> 1 / 2 ^ 48
   \<and> position (restingAgent \<lparr>x = 0, y = 0\<rparr>) = position (restingAgent \<lparr>x = 0, y = 0\<rparr>)
   \<and> mag_fl hypotRounded (sub_fl (velocity (restingAgent \<lparr>x = 0, y = 0\<rparr>))
                                   (velocity (restingAgent \<lparr>x = 0, y = 0\<rparr>))) \<le> EPSILON_fl
   \<and> direction (last (appendAgentConstraint_fl hypotRounded
         (restingAgent \<lparr>x = 0, y = 0\<rparr>) (restingAgent \<lparr>x = 0, y = 0\<rparr>) []
         (3602879701896397 / 9007199254740992) (1 / 64)))
       = \<lparr>x = 1, y = 0\<rparr>"
proof -
  let ?A = "restingAgent \<lparr>x = 0, y = 0\<rparr>"
  let ?B = "restingAgent \<lparr>x = - 30, y = - 40\<rparr>"
  let ?c = "3602879701896397 / 9007199254740992 :: real"
  let ?D = "\<lparr>x = - (3602879701896397 / 4503599627370496),
            y = 1351079888211149 / 2251799813685248 :: real\<rparr>"
  note acc = accurateHypot_rounded
  have parts: "fst (constraintParts_fl hypotRounded ?A ?B ?c (1 / 64)) = ?D"
    by (rule rest_parts)
  have "EPSILON_fl < 4503599627370497 / 4503599627370496"
    by (rule less_trans[OF EPSILON_fl_small(2)]) simp
  then have big: "EPSILON_fl < absSq_fl (fst (constraintParts_fl hypotRounded ?A ?B ?c (1 / 64)))"
    unfolding parts rest_absSq_fl .
  have still: "mag_fl hypotRounded (sub_fl (velocity ?A) (velocity ?A)) \<le> EPSILON_fl"
    using EPSILON_fl_bounds(1)
    by (simp add: mag_fl_def sub_fl_def restingAgent_def zero_def fl_zero hypotRounded_def)
  from appendAgentConstraint_direction[OF acc, of ?A ?B "[]" ?c "1 / 64"] big
  obtain line where
    l1: "appendAgentConstraint_fl hypotRounded ?A ?B [] ?c (1 / 64) = [] @ [line]"
      "direction line = normalize_fl hypotRounded (fst (constraintParts_fl hypotRounded ?A ?B ?c (1 / 64)))"
      "\<bar>absSq (direction line) - 1\<bar> \<le> 1 / 2 ^ 48"
    by blast
  from appendAgentConstraint_direction[OF acc, of ?A ?A "[]" ?c "1 / 64"] still
  obtain line2 where
    l2: "appendAgentConstraint_fl hypotRounded ?A ?A [] ?c (1 / 64) = [] @ [line2]"
      "direction line2 = \<lparr>x = 1, y = 0\<rparr>"
    by blast
  from l1 have a: "direction (last (appendAgentConstraint_fl hypotRounded ?A ?B [] ?c (1 / 64)))
                     = normalize_fl hypotRounded ?D"
    and b: "\<bar>absSq (normalize_fl hypotRounded ?D) - 1\<bar> \<le> 1 / 2 ^ 48"
    by (simp_all add: parts)
  from l2 have c: "direction (last (appendAgentConstraint_fl hypotRounded ?A ?A [] ?c (1 / 64)))
                     = \<lparr>x = 1, y = 0\<rparr>"
    by simp
  from acc big a b still c show ?thesis by simp
qed

subsection \<open>The neighbor finder\<close>

lemma sqDist_sym: "sqDist ags i j = sqDist ags j i"
  by (simp add: sqDist_def absSq_def sub_def algebra_simps)

lemma set_insertNeighbor: "set (insertNeighbor l nb) \<subseteq> insert nb (set l)"
proof -
  have "set (butlast (sort_key distSq (l @ [nb]))) \<subseteq> set (sort_key distSq (l @ [nb]))"
    by (auto dest: in_set_butlastD)
  then show ?thesis by (auto simp: insertNeighbor_def Let_def)
qed

lemma sorted_insertNeighbor: "sorted (map distSq (insertNeighbor l nb))"
proof -
  let ?s = "sort_key distSq (l @ [nb])"
  have s: "sorted (map distSq ?s)" by (rule sorted_sort_key)
  have "?s \<noteq> []" by (metis length_sort snoc_eq_iff_butlast length_0_conv)
  then have "sorted (butlast (map distSq ?s))"
    using s by (simp add: sorted_butlast)
  then have "sorted (map distSq (butlast ?s))" by (simp add: map_butlast)
  with s show ?thesis by (simp add: insertNeighbor_def Let_def)
qed

lemma length_insertNeighbor:
  "length l \<le> maxNeighbors \<Longrightarrow> length (insertNeighbor l nb) \<le> maxNeighbors"
  by (simp add: insertNeighbor_def Let_def)

lemma insertNeighbor_room:
  "length l < maxNeighbors \<Longrightarrow>
     insertNeighbor l nb = sort_key distSq (l @ [nb])"
  by (simp add: insertNeighbor_def Let_def)

lemma distinct_insertNeighbor:
  assumes "distinct (map index l)" "index nb \<notin> index ` set l"
  shows "distinct (map index (insertNeighbor l nb))"
proof -
  let ?s = "sort_key distSq (l @ [nb])"
  have "distinct (map index (l @ [nb]))" using assms by auto
  then have "distinct (l @ [nb]) \<and> inj_on index (set (l @ [nb]))"
    by (simp only: distinct_map)
  then have "distinct ?s \<and> inj_on index (set ?s)"
    by (simp only: distinct_sort set_sort)
  then have d: "distinct (map index ?s)"
    by (simp only: distinct_map)
  then have "distinct (butlast (map index ?s))" by (rule distinct_butlast)
  then have "distinct (map index (butlast ?s))" by (simp add: map_butlast)
  with d show ?thesis by (simp add: insertNeighbor_def Let_def)
qed

lemma last_is_max:
  assumes "sorted (map f s)" "e \<in> set (butlast s)"
  shows "f e \<le> f (last s)"
proof -
  from assms(2) have ne: "s \<noteq> []" by auto
  then have "s = butlast s @ [last s]" by simp
  then have "sorted (map f (butlast s) @ [f (last s)])"
    using assms(1) by (metis map_append list.simps(8,9))
  with assms(2) show ?thesis by (auto simp: sorted_append)
qed

lemma kept_insertNeighbor:
  assumes len: "length l \<le> maxNeighbors" and k: "kept C l"
  shows "kept (insert nb C) (insertNeighbor l nb)"
proof -
  let ?s = "sort_key distSq (l @ [nb])"
  have set_s: "set ?s = insert nb (set l)" by simp
  have len_s: "length ?s = length l + 1" by simp
  have srt: "sorted (map distSq ?s)" by (rule sorted_sort_key)
  show ?thesis
  proof (cases "length ?s > maxNeighbors")
    case False
    then have res: "insertNeighbor l nb = ?s" by (simp add: insertNeighbor_def Let_def)
    from False len_s have "length l \<noteq> maxNeighbors" by simp
    with k have "\<forall>c \<in> C. c \<in> set l" by (auto simp: kept_def)
    then show ?thesis unfolding res kept_def set_s by auto
  next
    case True
    then have res: "insertNeighbor l nb = butlast ?s" by (simp add: insertNeighbor_def Let_def)
    from True len len_s have ll: "length l = maxNeighbors" by simp
    then have lb: "length (butlast ?s) = maxNeighbors" by simp
    have ne: "?s \<noteq> []" using len_s by (metis length_0_conv add_is_0 one_neq_zero)
    have mx: "\<forall>e \<in> set (butlast ?s). distSq e \<le> distSq (last ?s)"
      using last_is_max[OF srt] by blast
    have sub: "set (butlast ?s) \<subseteq> insert nb (set l)"
      using set_s by (auto dest: in_set_butlastD)
    have lastin: "last ?s \<in> insert nb (set l)"
      using ne set_s last_in_set by blast
    have "c \<in> set (butlast ?s) \<or> (\<forall>e \<in> set (butlast ?s). distSq e \<le> distSq c)"
      if c: "c \<in> insert nb C" for c
    proof (cases "c \<in> set ?s")
      case True
      then have "c \<in> set (butlast ?s @ [last ?s])" using ne by simp
      then have "c \<in> set (butlast ?s) \<or> c = last ?s" by auto
      with mx show ?thesis by auto
    next
      case False
      with set_s c have cC: "c \<in> C" and cl: "c \<notin> set l" by auto
      with k have lo: "\<forall>e \<in> set l. distSq e \<le> distSq c" by (auto simp: kept_def)
      have "distSq e \<le> distSq c" if e: "e \<in> set (butlast ?s)" for e
      proof (cases "e \<in> set l")
        case True
        with lo show ?thesis by simp
      next
        case F: False
        with e sub have en: "e = nb" by auto
        from mx e have le: "distSq e \<le> distSq (last ?s)" by simp
        from lastin show ?thesis
        proof
          assume "last ?s = nb"
          have "nb \<in> set l"
          proof (rule ccontr)
            assume nl: "nb \<notin> set l"
            from e en have a: "nb \<in> set (butlast ?s)" by simp
            have "length (filter (\<lambda>z. z = nb) ?s) = length (filter (\<lambda>z. z = nb) (l @ [nb]))"
              by (metis filter_sort length_sort)
            also have "\<dots> = 1" using nl by (auto simp: filter_empty_conv)
            finally have one: "length (filter (\<lambda>z. z = nb) ?s) = 1" .
            obtain ys where ys: "?s = ys @ [nb]" "ys = butlast ?s"
              using ne \<open>last ?s = nb\<close> by (metis append_butlast_last_id)
            have "length (filter (\<lambda>z. z = nb) (ys @ [nb]))
                        = length (filter (\<lambda>z. z = nb) ys) + 1"
              by simp
            then have "length (filter (\<lambda>z. z = nb) ?s)
                        = length (filter (\<lambda>z. z = nb) (butlast ?s)) + 1"
              using ys by metis
            with one have "filter (\<lambda>z. z = nb) (butlast ?s) = []" by simp
            with a show False by (auto simp: filter_empty_conv)
          qed
          with lo en show ?thesis by simp
        next
          assume "last ?s \<in> set l"
          with lo le show ?thesis by force
        qed
      qed
      then show ?thesis by blast
    qed
    then show ?thesis unfolding res kept_def using lb by blast
  qed
qed

lemma insertAll_Nil: "insertAll [] l = l"
  by (simp add: insertAll_def)

lemma insertAll_Cons: "insertAll (c # cs) l = insertAll cs (insertNeighbor l c)"
  by (simp add: insertAll_def)

lemma insertAll_append: "insertAll (cs @ ds) l = insertAll ds (insertAll cs l)"
  by (simp add: insertAll_def)

lemma length_insertAll:
  "length l \<le> maxNeighbors \<Longrightarrow> length (insertAll cs l) \<le> maxNeighbors"
  by (induction cs arbitrary: l) (simp_all add: insertAll_Nil insertAll_Cons length_insertNeighbor)

lemma sorted_insertAll:
  "sorted (map distSq l) \<Longrightarrow> sorted (map distSq (insertAll cs l))"
  by (induction cs arbitrary: l) (simp_all add: insertAll_Nil insertAll_Cons sorted_insertNeighbor)

lemma set_insertAll: "set (insertAll cs l) \<subseteq> set l \<union> set cs"
proof (induction cs arbitrary: l)
  case Nil
  then show ?case by (simp add: insertAll_Nil)
next
  case (Cons c cs)
  from Cons.IH[of "insertNeighbor l c"] set_insertNeighbor[of l c]
  show ?case by (auto simp: insertAll_Cons)
qed

lemma kept_insertAll:
  "length l \<le> maxNeighbors \<Longrightarrow> kept C l \<Longrightarrow> kept (C \<union> set cs) (insertAll cs l)"
proof (induction cs arbitrary: l C)
  case Nil
  then show ?case by (simp add: insertAll_Nil)
next
  case (Cons c cs)
  from kept_insertNeighbor[OF Cons.prems] have "kept (insert c C) (insertNeighbor l c)" .
  from Cons.IH[OF length_insertNeighbor[OF Cons.prems(1)] this]
  show ?case by (simp add: insertAll_Cons)
qed

lemma distinct_insertAll:
  "distinct (map index l) \<Longrightarrow> distinct (map index cs) \<Longrightarrow>
     index ` set l \<inter> index ` set cs = {} \<Longrightarrow> distinct (map index (insertAll cs l))"
proof (induction cs arbitrary: l)
  case Nil
  then show ?case by (simp add: insertAll_Nil)
next
  case (Cons c cs)
  from Cons.prems have a: "distinct (map index (insertNeighbor l c))"
    by (intro distinct_insertNeighbor) auto
  from Cons.prems have b: "distinct (map index cs)" by simp
  have c: "index ` set (insertNeighbor l c) \<inter> index ` set cs = {}"
  proof -
    have "index ` set (insertNeighbor l c) \<subseteq> insert (index c) (index ` set l)"
      using set_insertNeighbor[of l c] by auto
    moreover from Cons.prems have "insert (index c) (index ` set l) \<inter> index ` set cs = {}"
      by auto
    ultimately show ?thesis by blast
  qed
  from Cons.IH[OF a b c] show ?case by (simp add: insertAll_Cons)
qed

lemma insertAll_no_eviction:
  "length l + length cs \<le> maxNeighbors \<Longrightarrow>
     set (insertAll cs l) = set l \<union> set cs \<and> length (insertAll cs l) = length l + length cs"
proof (induction cs arbitrary: l)
  case Nil
  then show ?case by (simp add: insertAll_Nil)
next
  case (Cons c cs)
  then have room: "length l < maxNeighbors" by simp
  then have eq: "insertNeighbor l c = sort_key distSq (l @ [c])" by (rule insertNeighbor_room)
  then have "length (insertNeighbor l c) + length cs \<le> maxNeighbors"
    using Cons.prems by simp
  from Cons.IH[OF this] show ?case by (auto simp: insertAll_Cons eq)
qed

lemma candidates_append:
  "candidates ags radiusSq k (js @ js') = candidates ags radiusSq k js @ candidates ags radiusSq k js'"
  by (simp add: candidates_def)

lemma candidates_self: "candidates ags radiusSq k [k] = []"
  by (simp add: candidates_def)

lemma candidates_Cons:
  "candidates ags radiusSq k (j # js)
     = (if j \<noteq> k \<and> \<not> sqDist ags k j > radiusSq
        then \<lparr>index = j, distSq = sqDist ags k j\<rparr> # candidates ags radiusSq k js
        else candidates ags radiusSq k js)"
  by (simp add: candidates_def)

lemma neighborStep_length: "length (neighborStep ags radiusSq i j T) = length T"
  by (simp add: neighborStep_def Let_def)

lemma neighborStep_nth:
  assumes "i < length T" "j < length T" "i \<noteq> j" "k < length T"
  shows "neighborStep ags radiusSq i j T ! k
           = (if sqDist ags i j > radiusSq then T ! k
              else if k = i then insertNeighbor (T ! i) \<lparr>index = j, distSq = sqDist ags i j\<rparr>
              else if k = j then insertNeighbor (T ! j) \<lparr>index = i, distSq = sqDist ags i j\<rparr>
              else T ! k)"
  using assms by (auto simp: neighborStep_def Let_def sqDist_def nth_list_update)

lemma inner_loop:
  assumes "i < length T" "\<forall>j \<in> set js. i < j \<and> j < length T" "distinct js"
  shows "length (fold (neighborStep ags radiusSq i) js T) = length T \<and>
         fold (neighborStep ags radiusSq i) js T ! i
           = insertAll (candidates ags radiusSq i js) (T ! i) \<and>
         (\<forall>k<length T. k \<noteq> i \<longrightarrow>
            fold (neighborStep ags radiusSq i) js T ! k
              = (if k \<in> set js \<and> \<not> sqDist ags i k > radiusSq
                 then insertNeighbor (T ! k) \<lparr>index = i, distSq = sqDist ags i k\<rparr>
                 else T ! k))"
  using assms
proof (induction js arbitrary: T)
  case Nil
  then show ?case by (simp add: candidates_def insertAll_Nil)
next
  case (Cons j js)
  let ?T1 = "neighborStep ags radiusSq i j T"
  from Cons.prems have ij: "i < j" "j < length T" "i \<noteq> j" "j \<noteq> i" by auto
  have l1: "length ?T1 = length T" by (rule neighborStep_length)
  from Cons.prems l1 have p: "i < length ?T1" "\<forall>j \<in> set js. i < j \<and> j < length ?T1" "distinct js"
    by auto
  note ih = Cons.IH[OF p]
  have nth1: "?T1 ! k
           = (if sqDist ags i j > radiusSq then T ! k
              else if k = i then insertNeighbor (T ! i) \<lparr>index = j, distSq = sqDist ags i j\<rparr>
              else if k = j then insertNeighbor (T ! j) \<lparr>index = i, distSq = sqDist ags i j\<rparr>
              else T ! k)" if "k < length T" for k
    by (rule neighborStep_nth[OF Cons.prems(1) ij(2) ij(3) that])
  have a: "length (fold (neighborStep ags radiusSq i) (j # js) T) = length T"
    using ih l1 by simp
  have b: "fold (neighborStep ags radiusSq i) (j # js) T ! i
           = insertAll (candidates ags radiusSq i (j # js)) (T ! i)"
    using ih nth1[OF Cons.prems(1)] ij
    by (simp add: candidates_Cons insertAll_Cons)
  have c: "fold (neighborStep ags radiusSq i) (j # js) T ! k
              = (if k \<in> set (j # js) \<and> \<not> sqDist ags i k > radiusSq
                 then insertNeighbor (T ! k) \<lparr>index = i, distSq = sqDist ags i k\<rparr>
                 else T ! k)" if k: "k < length T" "k \<noteq> i" for k
  proof -
    from ih k l1 have
      "fold (neighborStep ags radiusSq i) (j # js) T ! k
         = (if k \<in> set js \<and> \<not> sqDist ags i k > radiusSq
            then insertNeighbor (?T1 ! k) \<lparr>index = i, distSq = sqDist ags i k\<rparr>
            else ?T1 ! k)"
      by simp
    also have "\<dots> = (if k \<in> set (j # js) \<and> \<not> sqDist ags i k > radiusSq
                 then insertNeighbor (T ! k) \<lparr>index = i, distSq = sqDist ags i k\<rparr>
                 else T ! k)"
      using nth1[OF k(1)] k(2) Cons.prems(3) by auto
    finally show ?thesis .
  qed
  from a b c show ?case by blast
qed

lemma outer_loop:
  assumes "m \<le> n"
  shows "length (fold (\<lambda>i table. fold (neighborStep ags radiusSq i) [i + 1 ..< n] table)
                   [0 ..< m] (replicate n [])) = n \<and>
         (\<forall>k<n. fold (\<lambda>i table. fold (neighborStep ags radiusSq i) [i + 1 ..< n] table)
                   [0 ..< m] (replicate n []) ! k
                = (if k < m
                   then insertAll (candidates ags radiusSq k ([0 ..< k] @ [k + 1 ..< n])) []
                   else insertAll (candidates ags radiusSq k [0 ..< m]) []))"
  using assms
proof (induction m)
  case 0
  then show ?case by (simp add: candidates_def insertAll_Nil)
next
  case (Suc m)
  let ?outer = "\<lambda>m. fold (\<lambda>i table. fold (neighborStep ags radiusSq i) [i + 1 ..< n] table)
                   [0 ..< m] (replicate n [])"
  let ?T = "?outer m"
  from Suc.prems have mn: "m < n" "m \<le> n" by simp_all
  from Suc.IH[OF mn(2)] have len: "length ?T = n" and
    ih: "\<And>k. k < n \<Longrightarrow> ?T ! k
                = (if k < m
                   then insertAll (candidates ags radiusSq k ([0 ..< k] @ [k + 1 ..< n])) []
                   else insertAll (candidates ags radiusSq k [0 ..< m]) [])"
    by simp_all
  have unf: "?outer (Suc m) = fold (neighborStep ags radiusSq m) [m + 1 ..< n] ?T"
    by simp
  have pre: "m < length ?T" "\<forall>j \<in> set [m + 1 ..< n]. m < j \<and> j < length ?T"
    "distinct [m + 1 ..< n]"
    using mn len by auto
  from inner_loop[OF pre, of ags radiusSq] len have
    l': "length (?outer (Suc m)) = n" and
    atm: "?outer (Suc m) ! m = insertAll (candidates ags radiusSq m [m + 1 ..< n]) (?T ! m)" and
    oth: "\<And>k. k < n \<Longrightarrow> k \<noteq> m \<Longrightarrow> ?outer (Suc m) ! k
              = (if k \<in> set [m + 1 ..< n] \<and> \<not> sqDist ags m k > radiusSq
                 then insertNeighbor (?T ! k) \<lparr>index = m, distSq = sqDist ags m k\<rparr>
                 else ?T ! k)"
    unfolding unf by simp_all
  have "?outer (Suc m) ! k
          = (if k < Suc m
             then insertAll (candidates ags radiusSq k ([0 ..< k] @ [k + 1 ..< n])) []
             else insertAll (candidates ags radiusSq k [0 ..< Suc m]) [])" if k: "k < n" for k
  proof -
    consider "k < m" | "k = m" | "m < k" by linarith
    then show ?thesis
    proof cases
      case 1
      with oth[OF k] ih[OF k] show ?thesis by simp
    next
      case 2
      with atm ih[OF k] show ?thesis
        by (simp add: candidates_append insertAll_append)
    next
      case 3
      have "candidates ags radiusSq k [0 ..< Suc m]
              = candidates ags radiusSq k [0 ..< m]
                  @ (if \<not> sqDist ags m k > radiusSq
                     then [\<lparr>index = m, distSq = sqDist ags m k\<rparr>] else [])"
        using 3 by (simp add: candidates_append candidates_Cons sqDist_sym[of ags k m]
                      candidates_def)
      with 3 k oth[OF k] ih[OF k] show ?thesis
        by (simp add: insertAll_append insertAll_Cons insertAll_Nil)
    qed
  qed
  with l' show ?case by blast
qed

lemma candidates_skip_self:
  assumes "k < n"
  shows "candidates ags radiusSq k ([0 ..< k] @ [k + 1 ..< n]) = candidates ags radiusSq k [0 ..< n]"
proof -
  from assms obtain d where n: "n = k + d" and d: "0 < d"
    by (metis less_imp_add_positive)
  have "[0 ..< k + d] = [0 ..< k] @ [k ..< k + d]"
    by (rule upt_add_eq_append) simp
  also have "[k ..< k + d] = k # [k + 1 ..< k + d]"
    using d by (simp add: upt_conv_Cons)
  finally have "[0 ..< n] = [0 ..< k] @ [k] @ [k + 1 ..< n]"
    by (simp add: n)
  then show ?thesis
    by (simp add: candidates_append candidates_Cons)
qed

lemma buildNeighborTable_nth:
  "length (buildNeighborTable ags radiusSq) = length ags \<and>
   (\<forall>k<length ags. buildNeighborTable ags radiusSq ! k
                      = insertAll (candidates ags radiusSq k [0 ..< length ags]) [])"
  using outer_loop[of "length ags" "length ags" ags radiusSq]
  by (simp add: buildNeighborTable_def candidates_skip_self[symmetric])

lemma candidates_set:
  "nb \<in> set (candidates ags radiusSq i [0 ..< n]) \<longleftrightarrow>
     index nb < n \<and> index nb \<noteq> i \<and> sqDist ags i (index nb) \<le> radiusSq \<and>
     distSq nb = sqDist ags i (index nb)"
  by (cases nb) (auto simp: candidates_def)

lemma candidates_index:
  "j \<in> index ` set (candidates ags radiusSq i [0 ..< n]) \<longleftrightarrow>
     j < n \<and> j \<noteq> i \<and> sqDist ags i j \<le> radiusSq"
proof
  assume "j \<in> index ` set (candidates ags radiusSq i [0 ..< n])"
  then show "j < n \<and> j \<noteq> i \<and> sqDist ags i j \<le> radiusSq"
    by (auto simp: candidates_set)
next
  assume "j < n \<and> j \<noteq> i \<and> sqDist ags i j \<le> radiusSq"
  then have "\<lparr>index = j, distSq = sqDist ags i j\<rparr> \<in> set (candidates ags radiusSq i [0 ..< n])"
    by (simp add: candidates_set)
  then show "j \<in> index ` set (candidates ags radiusSq i [0 ..< n])"
    by force
qed

lemma candidates_distinct: "distinct (map index (candidates ags radiusSq i js)) = distinct (filter (\<lambda>j. j \<noteq> i \<and> \<not> sqDist ags i j > radiusSq) js)"
  by (simp add: candidates_def comp_def)

lemma candidates_length:
  assumes "i < n"
  shows "length (candidates ags radiusSq i [0 ..< n]) < n"
proof -
  have "length (filter (\<lambda>j. j \<noteq> i \<and> \<not> sqDist ags i j > radiusSq) [0 ..< n]) < length [0 ..< n]"
    by (rule length_filter_less[of i]) (use assms in auto)
  then show ?thesis by (simp add: candidates_def)
qed

lemma neighbor_list_props:
  assumes i: "i < length ags"
  shows "sorted (map distSq (buildNeighborTable ags radiusSq ! i))"
    and "length (buildNeighborTable ags radiusSq ! i) \<le> maxNeighbors"
    and "distinct (map index (buildNeighborTable ags radiusSq ! i))"
    and "\<forall>nb \<in> set (buildNeighborTable ags radiusSq ! i). index nb < length ags \<and> index nb \<noteq> i \<and>
            distSq nb = sqDist ags i (index nb) \<and> distSq nb \<le> radiusSq"
    and "\<forall>j<length ags. j \<noteq> i \<and> sqDist ags i j \<le> radiusSq \<longrightarrow>
            j \<in> index ` set (buildNeighborTable ags radiusSq ! i) \<or>
            (length (buildNeighborTable ags radiusSq ! i) = maxNeighbors \<and> (\<forall>e \<in> set (buildNeighborTable ags radiusSq ! i). distSq e \<le> sqDist ags i j))"
    and "length ags \<le> maxNeighbors + 1 \<Longrightarrow>
            \<forall>j. j \<in> index ` set (buildNeighborTable ags radiusSq ! i) \<longleftrightarrow> j < length ags \<and> j \<noteq> i \<and> sqDist ags i j \<le> radiusSq"
proof -
  let ?cs = "candidates ags radiusSq i [0 ..< length ags]"
  define L where "L = buildNeighborTable ags radiusSq ! i"
  have L: "L = insertAll ?cs []"
    using buildNeighborTable_nth[of ags radiusSq] i by (simp add: L_def)
  show "sorted (map distSq (buildNeighborTable ags radiusSq ! i))" unfolding L_def[symmetric] L by (rule sorted_insertAll) simp
  show "length (buildNeighborTable ags radiusSq ! i) \<le> maxNeighbors" unfolding L_def[symmetric] L by (rule length_insertAll) simp
  show "distinct (map index (buildNeighborTable ags radiusSq ! i))" unfolding L_def[symmetric] L
    by (rule distinct_insertAll) (simp_all add: candidates_distinct)
  have sub: "set L \<subseteq> set ?cs" unfolding L using set_insertAll[of ?cs "[]"] by simp
  then show "\<forall>nb \<in> set (buildNeighborTable ags radiusSq ! i). index nb < length ags \<and> index nb \<noteq> i \<and>
            distSq nb = sqDist ags i (index nb) \<and> distSq nb \<le> radiusSq"
    unfolding L_def[symmetric] by (auto simp: candidates_set)
  have "kept ({} \<union> set ?cs) (insertAll ?cs [])"
    by (rule kept_insertAll) (simp_all add: kept_def)
  then have k: "kept (set ?cs) L" by (simp add: L)
  show "\<forall>j<length ags. j \<noteq> i \<and> sqDist ags i j \<le> radiusSq \<longrightarrow>
            j \<in> index ` set (buildNeighborTable ags radiusSq ! i) \<or>
            (length (buildNeighborTable ags radiusSq ! i) = maxNeighbors \<and>
             (\<forall>e \<in> set (buildNeighborTable ags radiusSq ! i). distSq e \<le> sqDist ags i j))"
    unfolding L_def[symmetric]
  proof (intro allI impI)
    fix j assume j: "j < length ags" and h: "j \<noteq> i \<and> sqDist ags i j \<le> radiusSq"
    let ?c = "\<lparr>index = j, distSq = sqDist ags i j\<rparr>"
    from j h have "?c \<in> set ?cs" by (simp add: candidates_set)
    with k have "?c \<in> set L \<or> (length L = maxNeighbors \<and> (\<forall>e \<in> set L. distSq e \<le> distSq ?c))"
      by (auto simp: kept_def)
    then show "j \<in> index ` set L \<or>
            (length L = maxNeighbors \<and> (\<forall>e \<in> set L. distSq e \<le> sqDist ags i j))"
      by force
  qed
  show "\<forall>j. j \<in> index ` set (buildNeighborTable ags radiusSq ! i) \<longleftrightarrow>
              j < length ags \<and> j \<noteq> i \<and> sqDist ags i j \<le> radiusSq"
    if small: "length ags \<le> maxNeighbors + 1"
    unfolding L_def[symmetric]
  proof -
    from candidates_length[OF i, of ags radiusSq] small
    have "length [] + length ?cs \<le> maxNeighbors" by simp
    from insertAll_no_eviction[OF this] have "set L = set ?cs" by (simp add: L)
    then show "\<forall>j. j \<in> index ` set L \<longleftrightarrow>
              j < length ags \<and> j \<noteq> i \<and> sqDist ags i j \<le> radiusSq"
      by (simp add: candidates_index)
  qed
qed

text \<open>
  Claim C5, as amended. The table has one list per agent. Every list is sorted ascending
  by squared distance, has at most \<open>maxNeighbors\<close> entries, has no repeated agent and never
  contains the agent itself; each entry names another agent and carries the squared
  distance to it, which is at most the squared radius (the bound is not strict). An agent
  within the radius that is missing from a list was evicted: the list is then full and
  holds only agents at most as far. When there are at most \<open>maxNeighbors + 1\<close> agents nothing
  is evicted, and two distinct agents are in each other's lists exactly when their squared
  distance is at most the squared radius. With zero agents the table is empty.
\<close>

theorem buildNeighborTable_spec:
  "length (buildNeighborTable ags radiusSq) = length ags \<and>
   (\<forall>i<length ags.
      sorted (map distSq (buildNeighborTable ags radiusSq ! i)) \<and>
      length (buildNeighborTable ags radiusSq ! i) \<le> maxNeighbors \<and>
      distinct (map index (buildNeighborTable ags radiusSq ! i)) \<and>
      (\<forall>nb \<in> set (buildNeighborTable ags radiusSq ! i).
         index nb < length ags \<and> index nb \<noteq> i \<and>
         distSq nb = sqDist ags i (index nb) \<and> distSq nb \<le> radiusSq) \<and>
      (\<forall>j<length ags. j \<noteq> i \<and> sqDist ags i j \<le> radiusSq \<longrightarrow>
         j \<in> index ` set (buildNeighborTable ags radiusSq ! i) \<or>
         (length (buildNeighborTable ags radiusSq ! i) = maxNeighbors \<and>
          (\<forall>e \<in> set (buildNeighborTable ags radiusSq ! i). distSq e \<le> sqDist ags i j))) \<and>
      (length ags \<le> maxNeighbors + 1 \<longrightarrow>
         (\<forall>j<length ags. j \<noteq> i \<longrightarrow>
            (j \<in> index ` set (buildNeighborTable ags radiusSq ! i) \<longleftrightarrow> sqDist ags i j \<le> radiusSq) \<and>
            (i \<in> index ` set (buildNeighborTable ags radiusSq ! j) \<longleftrightarrow> sqDist ags i j \<le> radiusSq)))) \<and>
   buildNeighborTable [] radiusSq = []"
proof (intro conjI allI impI)
  show "length (buildNeighborTable ags radiusSq) = length ags"
    using buildNeighborTable_nth[of ags radiusSq] by simp
next
  show "buildNeighborTable [] radiusSq = []"
    by (simp add: buildNeighborTable_def)
next
  fix i assume i: "i < length ags"
  note p = neighbor_list_props[OF i, of radiusSq]
  show "sorted (map distSq (buildNeighborTable ags radiusSq ! i))" by (rule p(1))
  show "length (buildNeighborTable ags radiusSq ! i) \<le> maxNeighbors" by (rule p(2))
  show "distinct (map index (buildNeighborTable ags radiusSq ! i))" by (rule p(3))
  show "\<forall>nb \<in> set (buildNeighborTable ags radiusSq ! i).
         index nb < length ags \<and> index nb \<noteq> i \<and>
         distSq nb = sqDist ags i (index nb) \<and> distSq nb \<le> radiusSq" by (rule p(4))
  {
    fix j assume "j < length ags" "j \<noteq> i \<and> sqDist ags i j \<le> radiusSq"
    with p(5) show "j \<in> index ` set (buildNeighborTable ags radiusSq ! i) \<or>
         (length (buildNeighborTable ags radiusSq ! i) = maxNeighbors \<and>
          (\<forall>e \<in> set (buildNeighborTable ags radiusSq ! i). distSq e \<le> sqDist ags i j))" by blast
  }
  {
    fix j assume small: "length ags \<le> maxNeighbors + 1" and j: "j < length ags" and ne: "j \<noteq> i"
    from p(6)[OF small] j ne
    show "j \<in> index ` set (buildNeighborTable ags radiusSq ! i) \<longleftrightarrow> sqDist ags i j \<le> radiusSq" by simp
    from neighbor_list_props(6)[OF j small, of radiusSq] i ne
    show "i \<in> index ` set (buildNeighborTable ags radiusSq ! j) \<longleftrightarrow> sqDist ags i j \<le> radiusSq"
      by (simp add: sqDist_sym[of ags j i])
  }
qed

lemma headOn_sqDist: "sqDist [headOnA, headOnB] 0 (Suc 0) = 1024"
  by (simp add: sqDist_def headOnA_def headOnB_def sub_def absSq_def)

text \<open>
  The claim as stated asks for a squared distance strictly below the squared radius. Two
  agents at squared distance exactly 1024, with squared radius 1024, are in each other's
  lists.
\<close>

theorem buildNeighborTable_boundary_counterexample:
  "Suc 0 \<in> index ` set (buildNeighborTable [headOnA, headOnB] 1024 ! 0)
   \<and> 0 \<in> index ` set (buildNeighborTable [headOnA, headOnB] 1024 ! Suc 0)
   \<and> \<not> sqDist [headOnA, headOnB] 0 (Suc 0) < 1024"
proof -
  have i: "0 < length [headOnA, headOnB]" "Suc 0 < length [headOnA, headOnB]" by simp_all
  have small: "length [headOnA, headOnB] \<le> maxNeighbors + 1" by (simp add: maxNeighbors_def)
  have d: "sqDist [headOnA, headOnB] (Suc 0) 0 = 1024"
    using headOn_sqDist by (simp add: sqDist_sym[of _ "Suc 0" 0])
  from neighbor_list_props(6)[OF i(1) small, of 1024] headOn_sqDist
  have a: "Suc 0 \<in> index ` set (buildNeighborTable [headOnA, headOnB] 1024 ! 0)" by simp
  from neighbor_list_props(6)[OF i(2) small, of 1024] d
  have b: "0 \<in> index ` set (buildNeighborTable [headOnA, headOnB] 1024 ! Suc 0)" by simp
  from a b headOn_sqDist show ?thesis by simp
qed

text \<open>
  An instance of the theorem: the two agents of the head-on scene with the default squared
  radius \<open>220 * 220\<close>.
\<close>

theorem buildNeighborTable_spec_witness:
  "length (buildNeighborTable [headOnA, headOnB] 48400) = 2
   \<and> sorted (map distSq (buildNeighborTable [headOnA, headOnB] 48400 ! 0))
   \<and> length (buildNeighborTable [headOnA, headOnB] 48400 ! 0) \<le> maxNeighbors
   \<and> Suc 0 \<in> index ` set (buildNeighborTable [headOnA, headOnB] 48400 ! 0)
   \<and> 0 \<in> index ` set (buildNeighborTable [headOnA, headOnB] 48400 ! Suc 0)
   \<and> sqDist [headOnA, headOnB] 0 (Suc 0) \<le> 48400"
proof -
  have small: "length [headOnA, headOnB] \<le> maxNeighbors + 1" by (simp add: maxNeighbors_def)
  have d: "sqDist [headOnA, headOnB] 0 (Suc 0) \<le> 48400" by (simp add: headOn_sqDist)
  from buildNeighborTable_spec[of "[headOnA, headOnB]" 48400] small d
  show ?thesis by (auto simp: less_Suc_eq)
qed

lemma crowd_length: "length crowd = 12"
  by (simp add: crowd_def)

lemma upt_12: "[0 ..< 12] = [0, 1, 2, 3, 4, 5, 6, 7, 8, 9, 10, 11]"
  by (simp add: upt_rec)

lemma rowAgent_sqDist:
  "absSq (sub (position (rowAgent p)) (position (rowAgent q))) = (p - q) * (p - q)"
  by (simp add: rowAgent_def absSq_def sub_def)

lemma crowd_first:
  "buildNeighborTable crowd 48400 ! 0
     = map (\<lambda>j. \<lparr>index = j, distSq = real (j * j)\<rparr>) [1, 2, 3, 4, 5, 6, 7, 8, 9, 10]"
proof -
  have "buildNeighborTable crowd 48400 ! 0 = insertAll (candidates crowd 48400 0 [0 ..< 12]) []"
    using buildNeighborTable_nth[of crowd 48400] by (simp add: crowd_length)
  also have "candidates crowd 48400 0 [0 ..< 12]
        = map (\<lambda>j. \<lparr>index = j, distSq = real (j * j)\<rparr>) [1, 2, 3, 4, 5, 6, 7, 8, 9, 10, 11]"
    unfolding upt_12
    by (simp add: candidates_def sqDist_def crowd_def rowAgent_sqDist)
  also have "insertAll \<dots> [] = map (\<lambda>j. \<lparr>index = j, distSq = real (j * j)\<rparr>) [1, 2, 3, 4, 5, 6, 7, 8, 9, 10]"
    by (simp add: insertAll_def insertNeighbor_def maxNeighbors_def)
  finally show ?thesis .
qed

lemma crowd_last:
  "buildNeighborTable crowd 48400 ! 11
     = map (\<lambda>j. \<lparr>index = j, distSq = real ((11 + j) * (11 + j))\<rparr>)
           [0, 1, 2, 3, 4, 5, 6, 7, 8, 9]"
proof -
  have "buildNeighborTable crowd 48400 ! 11 = insertAll (candidates crowd 48400 11 [0 ..< 12]) []"
    using buildNeighborTable_nth[of crowd 48400] by (simp add: crowd_length)
  also have "candidates crowd 48400 11 [0 ..< 12]
        = map (\<lambda>j. \<lparr>index = j, distSq = real ((11 + j) * (11 + j))\<rparr>)
              [0, 1, 2, 3, 4, 5, 6, 7, 8, 9, 10]"
    unfolding upt_12
    by (simp add: candidates_def sqDist_def crowd_def rowAgent_sqDist)
  also have "insertAll \<dots> []
        = map (\<lambda>j. \<lparr>index = j, distSq = real ((11 + j) * (11 + j))\<rparr>)
              [0, 1, 2, 3, 4, 5, 6, 7, 8, 9]"
    by (simp add: insertAll_def insertNeighbor_def maxNeighbors_def)
  finally show ?thesis .
qed

text \<open>
  With more than \<open>maxNeighbors + 1\<close> agents in range the lists are no longer symmetric: in
  the row of twelve the first agent is in the last agent's list, but the last agent, the
  farthest of the first agent's eleven candidates, was evicted from the first agent's list.
\<close>

lemma buildNeighborTable_eviction_example:
  "sqDist crowd 0 11 = 121
   \<and> 0 \<in> index ` set (buildNeighborTable crowd 48400 ! 11)
   \<and> 11 \<notin> index ` set (buildNeighborTable crowd 48400 ! 0)
   \<and> length (buildNeighborTable crowd 48400 ! 0) = maxNeighbors"
proof -
  have "sqDist crowd 0 11 = 121"
    by (simp add: sqDist_def crowd_def rowAgent_sqDist)
  then show ?thesis
    by (simp add: crowd_first crowd_last maxNeighbors_def)
qed

subsection \<open>The tick\<close>

lemma linearProgram2_total:
  "\<exists>k r. linearProgram2 lines rad opt dOpt = Inr (k, r)"
  unfolding linearProgram2_def Let_def by (rule lp2Loop_total)

lemma lp3Loop_total:
  "\<exists>r. lp3Loop lines numObstLines rad i result distance = Inr r"
proof (induction "length lines - i" arbitrary: i result distance)
  case 0
  then show ?case
    by (simp add: lp3Loop.simps[of lines numObstLines rad i result distance])
next
  case (Suc n)
  then have lt: "i < length lines" and n: "n = length lines - (i + 1)" by simp_all
  let ?line = "lines ! i"
  show ?case
  proof (cases "det (direction ?line) (sub (point ?line) result) > distance")
    case False
    with lt Suc.hyps(1)[OF n, of result distance] show ?thesis
      by (simp add: lp3Loop.simps[of lines numObstLines rad i result distance] Let_def)
  next
    case True
    obtain k r2 where
      lp2: "linearProgram2 (buildProjLines lines numObstLines i) rad (perp (direction ?line)) True
              = Inr (k, r2)"
      using linearProgram2_total[of "buildProjLines lines numObstLines i" rad
               "perp (direction ?line)" True] by blast
    let ?r' = "if k < length (buildProjLines lines numObstLines i) then result else r2"
    from Suc.hyps(1)[OF n, of ?r' "det (direction ?line) (sub (point ?line) ?r')"]
    obtain r where "lp3Loop lines numObstLines rad (i + 1) ?r'
                      (det (direction ?line) (sub (point ?line) ?r')) = Inr r" by blast
    with lt True lp2 show ?thesis
      by (simp add: lp3Loop.simps[of lines numObstLines rad i result distance] Let_def)
  qed
qed

lemma linearProgram3_total:
  "\<exists>r. linearProgram3 lines numObstLines beginLine rad initialResult = Inr r"
  unfolding linearProgram3_def by (rule lp3Loop_total)

lemma collectLines_total:
  "\<forall>nb \<in> set nbs. index nb < length store \<Longrightarrow>
     \<exists>ls. collectLines store agent nbs lines invTimeHorizon dt = Inr ls"
  by (induction nbs arbitrary: lines) simp_all

lemma constraintParts_physical:
  "constraintParts (physical agent) (physical other) invTimeHorizon dt
     = constraintParts agent other invTimeHorizon dt"
  by (simp add: constraintParts_def physical_def)

lemma appendAgentConstraint_physical:
  "appendAgentConstraint (physical agent) (physical other) lines invTimeHorizon dt
     = appendAgentConstraint agent other lines invTimeHorizon dt"
  by (simp add: appendAgentConstraint_def constraintParts_physical) (simp add: physical_def)

lemma collectLines_physical:
  assumes "map physical s1 = map physical s2" "physical a1 = physical a2"
  shows "collectLines s1 a1 nbs lines invTimeHorizon dt
           = collectLines s2 a2 nbs lines invTimeHorizon dt"
  using assms
proof (induction nbs arbitrary: lines)
  case Nil
  then show ?case by simp
next
  case (Cons nb nbs)
  from Cons.prems(1) have len: "length s1 = length s2" by (metis length_map)
  show ?case
  proof (cases "index nb < length s1")
    case False
    with len show ?thesis by simp
  next
    case True
    with Cons.prems(1) len have "physical (s1 ! index nb) = physical (s2 ! index nb)"
      by (metis nth_map)
    then have "appendAgentConstraint a1 (s1 ! index nb) lines invTimeHorizon dt
                 = appendAgentConstraint a2 (s2 ! index nb) lines invTimeHorizon dt"
      using Cons.prems(2)
      by (metis appendAgentConstraint_physical)
    with True len Cons.IH[OF Cons.prems] show ?thesis by simp
  qed
qed

lemma computePreferredVelocity_physical:
  "computePreferredVelocity (physical a) = computePreferredVelocity a"
  by (cases "headingIndex a")
     (simp_all add: computePreferredVelocity_def physical_def target_def Let_def)

lemma physical_set_preferred: "physical (a\<lparr>preferredVelocity := p\<rparr>) = physical a"
  by (simp add: physical_def)

lemma physical_fields:
  "position (physical a) = position a" "velocity (physical a) = velocity a"
  "maxSpeed (physical a) = maxSpeed a" "radius (physical a) = radius a"
  by (simp_all add: physical_def)

lemma storePreferred_physical: "map physical (storePreferred store idx) = map physical store"
proof (cases "idx < length store")
  case True
  then have "(map physical store)[idx := physical (store ! idx)] = map physical store"
    by (metis list_update_id nth_map)
  then show ?thesis by (simp add: storePreferred_def map_update physical_set_preferred)
next
  case False
  then have "length store \<le> idx" by simp
  then show ?thesis by (simp add: storePreferred_def list_update_beyond)
qed

lemma solveAgent_unfold:
  "solveAgent store neighborTable invTimeHorizon dt idx
     = (case collectLines (storePreferred store idx) (storePreferred store idx ! idx)
               (neighborTable ! idx) [] invTimeHorizon dt of
          Inl e \<Rightarrow> Inl e
        | Inr lines \<Rightarrow>
            (case linearProgram2 lines (maxSpeed (storePreferred store idx ! idx))
                    (computePreferredVelocity (store ! idx)) False of
               Inl e \<Rightarrow> Inl e
             | Inr (lineFail, solved) \<Rightarrow>
                 if lineFail < length lines then
                   (case linearProgram3 lines 0 lineFail
                           (maxSpeed (storePreferred store idx ! idx)) solved of
                      Inl e \<Rightarrow> Inl e
                    | Inr adjusted \<Rightarrow>
                        Inr (storePreferred store idx,
                             limit adjusted (maxSpeed (storePreferred store idx ! idx))))
                 else Inr (storePreferred store idx,
                           limit solved (maxSpeed (storePreferred store idx ! idx)))))"
  unfolding solveAgent_def storePreferred_def Let_def by (rule refl)

lemma storePreferred_nth:
  "idx < length store \<Longrightarrow>
     storePreferred store idx ! idx
       = (store ! idx)\<lparr>preferredVelocity := computePreferredVelocity (store ! idx)\<rparr>"
  by (simp add: storePreferred_def)

lemma solveAgent_result:
  assumes idx: "idx < length store"
    and tb: "\<forall>nb \<in> set (neighborTable ! idx). index nb < length store"
  shows "\<exists>w. solveAgent store neighborTable invTimeHorizon dt idx
               = Inr (storePreferred store idx, limit w (maxSpeed (store ! idx)))"
proof -
  let ?pref = "computePreferredVelocity (store ! idx)"
  let ?s1 = "storePreferred store idx"
  let ?ag = "?s1 ! idx"
  have ms: "maxSpeed ?ag = maxSpeed (store ! idx)"
    using idx by (simp add: storePreferred_nth)
  from tb have "\<forall>nb \<in> set (neighborTable ! idx). index nb < length ?s1"
    by (simp add: storePreferred_def)
  from collectLines_total[OF this] obtain ls where
    cl: "collectLines ?s1 ?ag (neighborTable ! idx) [] invTimeHorizon dt = Inr ls" by blast
  from linearProgram2_total obtain k r where
    lp2: "linearProgram2 ls (maxSpeed ?ag) ?pref False = Inr (k, r)" by blast
  from linearProgram3_total obtain r3 where
    lp3: "linearProgram3 ls 0 k (maxSpeed ?ag) r = Inr r3" by blast
  have "solveAgent store neighborTable invTimeHorizon dt idx
          = Inr (?s1, limit (if k < length ls then r3 else r) (maxSpeed ?ag))"
    unfolding solveAgent_unfold
    by (simp add: cl lp2 lp3)
  then show ?thesis unfolding ms by blast
qed

lemma solveAgent_physical:
  assumes same: "map physical s1 = map physical s2" and idx: "idx < length s1"
    and run: "solveAgent s1 neighborTable invTimeHorizon dt idx = Inr (s1', v)"
  shows "\<exists>s2'. solveAgent s2 neighborTable invTimeHorizon dt idx = Inr (s2', v)"
proof -
  from same have len: "length s1 = length s2" by (metis length_map)
  from same idx len have pi: "physical (s1 ! idx) = physical (s2 ! idx)" by (metis nth_map)
  then have pref: "computePreferredVelocity (s1 ! idx) = computePreferredVelocity (s2 ! idx)"
    by (metis computePreferredVelocity_physical)
  have st: "map physical (storePreferred s1 idx) = map physical (storePreferred s2 idx)"
    using same by (simp add: storePreferred_physical)
  have ag: "physical (storePreferred s1 idx ! idx) = physical (storePreferred s2 idx ! idx)"
    using idx len pi by (simp add: storePreferred_nth physical_set_preferred)
  from pi have ms: "maxSpeed (storePreferred s1 idx ! idx) = maxSpeed (storePreferred s2 idx ! idx)"
    using idx len by (metis ag physical_fields(3))
  have cl: "collectLines (storePreferred s1 idx) (storePreferred s1 idx ! idx)
              (neighborTable ! idx) [] invTimeHorizon dt
            = collectLines (storePreferred s2 idx) (storePreferred s2 idx ! idx)
              (neighborTable ! idx) [] invTimeHorizon dt"
    by (rule collectLines_physical[OF st ag])
  have "map_sum id snd (solveAgent s1 neighborTable invTimeHorizon dt idx)
          = map_sum id snd (solveAgent s2 neighborTable invTimeHorizon dt idx)"
    unfolding solveAgent_unfold cl ms pref
    by (auto split: sum.splits prod.splits)
  with run show ?thesis
    by (cases "solveAgent s2 neighborTable invTimeHorizon dt idx") auto
qed

lemma computeVelocities_result:
  assumes "\<forall>i \<in> set idxs. i < length store0"
    and tb: "\<forall>i<length store0. \<forall>nb \<in> set (neighborTable ! i). index nb < length store0"
    and same: "map physical store = map physical store0"
  shows "\<exists>store' vs.
           computeVelocities neighborTable invTimeHorizon dt idxs store buf
             = Inr (store', buf @ vs) \<and>
           map physical store' = map physical store0 \<and> length vs = length idxs \<and>
           (\<forall>k<length idxs.
              (\<exists>s. solveAgent store0 neighborTable invTimeHorizon dt (idxs ! k) = Inr (s, vs ! k)) \<and>
              (\<exists>w. vs ! k = limit w (maxSpeed (store0 ! (idxs ! k)))))"
  using assms(1) same
proof (induction idxs arbitrary: store buf)
  case Nil
  then show ?case by simp
next
  case (Cons idx rest)
  from Cons.prems(2) have len: "length store = length store0" by (metis length_map)
  from Cons.prems(1) have idx0: "idx < length store0" by simp
  with len have idx: "idx < length store" by simp
  from tb idx0 len have tbi: "\<forall>nb \<in> set (neighborTable ! idx). index nb < length store" by simp
  from solveAgent_result[OF idx tbi] obtain w where
    run: "solveAgent store neighborTable invTimeHorizon dt idx
            = Inr (storePreferred store idx, limit w (maxSpeed (store ! idx)))" by blast
  let ?v = "limit w (maxSpeed (store ! idx))"
  from Cons.prems(2) idx len have "physical (store ! idx) = physical (store0 ! idx)"
    by (metis nth_map)
  then have ms: "maxSpeed (store ! idx) = maxSpeed (store0 ! idx)"
    by (metis physical_fields(3))
  from solveAgent_physical[OF Cons.prems(2) idx run] obtain s0 where
    run0: "solveAgent store0 neighborTable invTimeHorizon dt idx = Inr (s0, ?v)" by blast
  have same': "map physical (storePreferred store idx) = map physical store0"
    using Cons.prems(2) by (simp add: storePreferred_physical)
  from Cons.prems(1) have rest: "\<forall>i \<in> set rest. i < length store0" by simp
  from Cons.IH[OF rest same', of "buf @ [?v]"] obtain store' vs where
    cv: "computeVelocities neighborTable invTimeHorizon dt rest (storePreferred store idx)
           (buf @ [?v]) = Inr (store', (buf @ [?v]) @ vs)" and
    ph: "map physical store' = map physical store0" and lv: "length vs = length rest" and
    each: "\<forall>k<length rest.
              (\<exists>s. solveAgent store0 neighborTable invTimeHorizon dt (rest ! k) = Inr (s, vs ! k)) \<and>
              (\<exists>w. vs ! k = limit w (maxSpeed (store0 ! (rest ! k))))"
    by blast
  have a: "computeVelocities neighborTable invTimeHorizon dt (idx # rest) store buf
             = Inr (store', buf @ (?v # vs))"
    using run cv by simp
  have b: "length (?v # vs) = length (idx # rest)" using lv by simp
  have c: "(\<exists>s. solveAgent store0 neighborTable invTimeHorizon dt ((idx # rest) ! k)
                   = Inr (s, (?v # vs) ! k)) \<and>
           (\<exists>w. (?v # vs) ! k = limit w (maxSpeed (store0 ! ((idx # rest) ! k))))"
    if "k < length (idx # rest)" for k
  proof (cases k)
    case 0
    with run0 ms show ?thesis by auto
  next
    case (Suc k')
    with that each show ?thesis by simp
  qed
  from a ph b c show ?case by blast
qed

lemma swapGoalIfNeeded_fields:
  "position (swapGoalIfNeeded a) = position a" "velocity (swapGoalIfNeeded a) = velocity a"
  "maxSpeed (swapGoalIfNeeded a) = maxSpeed a" "radius (swapGoalIfNeeded a) = radius a"
  by (simp_all add: swapGoalIfNeeded_def)

lemma physical_nth_fields:
  assumes "map physical s1 = map physical s2" "i < length s2"
  shows "position (s1 ! i) = position (s2 ! i)" "velocity (s1 ! i) = velocity (s2 ! i)"
    "maxSpeed (s1 ! i) = maxSpeed (s2 ! i)" "radius (s1 ! i) = radius (s2 ! i)"
proof -
  from assms have "length s1 = length s2" by (metis length_map)
  with assms have "physical (s1 ! i) = physical (s2 ! i)" by (metis nth_map)
  then show "position (s1 ! i) = position (s2 ! i)" "velocity (s1 ! i) = velocity (s2 ! i)"
    "maxSpeed (s1 ! i) = maxSpeed (s2 ! i)" "radius (s1 ! i) = radius (s2 ! i)"
    by (metis physical_fields)+
qed

lemma neighborTable_indices:
  "\<forall>i<length ags. \<forall>nb \<in> set (buildNeighborTable ags radiusSq ! i). index nb < length ags"
  using neighbor_list_props(4) by blast

lemma update_result:
  assumes pos: "0 < deltaTime" and ne: "agents m \<noteq> []"
  shows "\<exists>store vs.
           computeVelocities
               (buildNeighborTable (map swapGoalIfNeeded (agents m)) (neighborRadiusSqOf m))
               (invTimeHorizonOf m) (min deltaTime 0.05)
               [0 ..< length (agents m)] (map swapGoalIfNeeded (agents m)) []
             = Inr (store, vs) \<and>
           update deltaTime m
             = Inr (m\<lparr>agents := applyVelocities store vs (min deltaTime 0.05)\<rparr>) \<and>
           map physical store = map physical (map swapGoalIfNeeded (agents m)) \<and>
           length store = length (agents m) \<and> length vs = length (agents m) \<and>
           (\<forall>i<length (agents m).
              (\<exists>s. solveAgent (map swapGoalIfNeeded (agents m))
                      (buildNeighborTable (map swapGoalIfNeeded (agents m)) (neighborRadiusSqOf m))
                      (invTimeHorizonOf m) (min deltaTime 0.05) i = Inr (s, vs ! i)) \<and>
              (\<exists>w. vs ! i = limit w (maxSpeed (agents m ! i))))"
proof -
  let ?sw = "map swapGoalIfNeeded (agents m)"
  let ?tbl = "buildNeighborTable ?sw (neighborRadiusSqOf m)"
  let ?dt = "min deltaTime 0.05"
  have idxs: "\<forall>i \<in> set [0 ..< length (agents m)]. i < length ?sw" by simp
  have tb: "\<forall>i<length ?sw. \<forall>nb \<in> set (?tbl ! i). index nb < length ?sw"
    by (rule neighborTable_indices)
  from computeVelocities_result[OF idxs tb refl, of "invTimeHorizonOf m" ?dt "[]"]
  obtain store vs where
    cv: "computeVelocities ?tbl (invTimeHorizonOf m) ?dt [0 ..< length (agents m)] ?sw []
           = Inr (store, vs)" and
    ph: "map physical store = map physical ?sw" and lv: "length vs = length (agents m)" and
    each: "\<forall>k<length (agents m).
              (\<exists>s. solveAgent ?sw ?tbl (invTimeHorizonOf m) ?dt k = Inr (s, vs ! k)) \<and>
              (\<exists>w. vs ! k = limit w (maxSpeed (?sw ! k)))"
    by auto
  from ph have ls: "length store = length (agents m)" by (metis length_map)
  have up: "update deltaTime m = Inr (m\<lparr>agents := applyVelocities store vs ?dt\<rparr>)"
    unfolding update_advance[OF pos ne refl] cv by simp
  from each have each': "\<forall>i<length (agents m).
              (\<exists>s. solveAgent ?sw ?tbl (invTimeHorizonOf m) ?dt i = Inr (s, vs ! i)) \<and>
              (\<exists>w. vs ! i = limit w (maxSpeed (agents m ! i)))"
    by (simp add: swapGoalIfNeeded_fields)
  from cv up ph ls lv each' show ?thesis by blast
qed

lemma applyVelocities_nth:
  "i < length store \<Longrightarrow> i < length vs \<Longrightarrow>
     applyVelocities store vs dt ! i
       = (store ! i)\<lparr>velocity := vs ! i, position := add (position (store ! i)) (mult (vs ! i) dt)\<rparr>"
  by (simp add: applyVelocities_def)

lemma applyVelocities_length:
  "length (applyVelocities store vs dt) = min (length store) (length vs)"
  by (simp add: applyVelocities_def)

text \<open>
  Whenever \<open>update\<close> advances the simulation (\<open>deltaTime > 0\<close>, at least one agent) from
  a state whose maximum speeds are not negative, it returns, it keeps every agent's maximum
  speed, and the magnitude of every agent's new velocity is at most that maximum speed.
\<close>

lemma update_limits_velocity:
  assumes "0 < deltaTime" and "agents m \<noteq> []"
    and "\<forall>a \<in> set (agents m). 0 \<le> maxSpeed a"
  shows "\<exists>m'. update deltaTime m = Inr m' \<and> length (agents m') = length (agents m) \<and>
           (\<forall>i<length (agents m).
              maxSpeed (agents m' ! i) = maxSpeed (agents m ! i) \<and>
              mag (velocity (agents m' ! i)) \<le> maxSpeed (agents m' ! i))"
proof -
  from update_result[OF assms(1,2)] obtain store vs where
    up: "update deltaTime m
           = Inr (m\<lparr>agents := applyVelocities store vs (min deltaTime 0.05)\<rparr>)" and
    ph: "map physical store = map physical (map swapGoalIfNeeded (agents m))" and
    ls: "length store = length (agents m)" and lv: "length vs = length (agents m)" and
    each: "\<forall>i<length (agents m). \<exists>w. vs ! i = limit w (maxSpeed (agents m ! i))"
    by blast
  let ?m' = "m\<lparr>agents := applyVelocities store vs (min deltaTime 0.05)\<rparr>"
  have len: "length (agents ?m') = length (agents m)"
    using ls lv by (simp add: applyVelocities_length)
  have "maxSpeed (agents ?m' ! i) = maxSpeed (agents m ! i) \<and>
        mag (velocity (agents ?m' ! i)) \<le> maxSpeed (agents ?m' ! i)"
    if i: "i < length (agents m)" for i
  proof -
    from i have "i < length (map swapGoalIfNeeded (agents m))" by simp
    from physical_nth_fields(3)[OF ph this] i
    have ms: "maxSpeed (store ! i) = maxSpeed (agents m ! i)"
      by (simp add: swapGoalIfNeeded_fields)
    from each i obtain w where w: "vs ! i = limit w (maxSpeed (agents m ! i))" by blast
    from assms(3) i have nn: "0 \<le> maxSpeed (agents m ! i)" by simp
    from i ls lv have nth: "agents ?m' ! i
        = (store ! i)\<lparr>velocity := vs ! i,
                       position := add (position (store ! i)) (mult (vs ! i) (min deltaTime 0.05))\<rparr>"
      by (simp add: applyVelocities_nth)
    show ?thesis
      unfolding nth using ms w mag_limit[OF nn, of w] by simp
  qed
  with up len show ?thesis by blast
qed

text \<open>
  An instance: one tick of the head-on scene. Both agents have maximum speed 100 and
  leave the tick with speed 80.
\<close>

lemma update_limits_velocity_headOn:
  "0 < (1 / 20 :: real) \<and> agents headOnModel \<noteq> []
   \<and> 0 \<le> maxSpeed headOnA \<and> 0 \<le> maxSpeed headOnB
   \<and> update (1 / 20) headOnModel
       = Inr (headOnModel\<lparr>agents :=
           [headOnA\<lparr>preferredVelocity := \<lparr>x = 80, y = 0\<rparr>, velocity := \<lparr>x = 80, y = 0\<rparr>,
                    position := \<lparr>x = 4, y = 0\<rparr>\<rparr>,
            headOnB\<lparr>preferredVelocity := \<lparr>x = - 80, y = 0\<rparr>, velocity := \<lparr>x = - 80, y = 0\<rparr>,
                    position := \<lparr>x = 28, y = 0\<rparr>\<rparr>]\<rparr>)
   \<and> mag \<lparr>x = 80, y = 0\<rparr> \<le> maxSpeed headOnA
   \<and> mag \<lparr>x = - 80, y = 0\<rparr> \<le> maxSpeed headOnB"
proof -
  have h: "0 < (1 / 20 :: real)" "agents headOnModel \<noteq> []"
    "\<forall>a \<in> set (agents headOnModel). 0 \<le> maxSpeed a"
    by (simp_all add: headOnModel_def headOnA_def headOnB_def)
  from update_limits_velocity[OF h] headOn_update
  have "mag (velocity (headOnA\<lparr>preferredVelocity := \<lparr>x = 80, y = 0\<rparr>,
                               velocity := \<lparr>x = 80, y = 0\<rparr>,
                               position := \<lparr>x = 4, y = 0\<rparr>\<rparr>)) \<le> maxSpeed headOnA"
    and "mag (velocity (headOnB\<lparr>preferredVelocity := \<lparr>x = - 80, y = 0\<rparr>,
                               velocity := \<lparr>x = - 80, y = 0\<rparr>,
                               position := \<lparr>x = 28, y = 0\<rparr>\<rparr>)) \<le> maxSpeed headOnB"
    by (auto simp: headOnModel_def less_Suc_eq numeral_2_eq_2)
  with h headOn_update show ?thesis
    by (simp add: headOnModel_def)
qed

lemma update_noop:
  "deltaTime \<le> 0 \<or> agents m = [] \<Longrightarrow> update deltaTime m = Inr m"
  by (auto simp: update_def)

lemma update_clamped:
  assumes "0 < deltaTime"
  shows "update deltaTime m = update (min deltaTime 0.05) m"
proof (cases "agents m = []")
  case True
  then show ?thesis by (simp add: update_noop)
next
  case False
  from assms have p: "0 < min deltaTime (0.05 :: real)" by simp
  have e: "min deltaTime (0.05 :: real) = min (min deltaTime 0.05) 0.05" by simp
  show ?thesis
    unfolding update_advance[OF assms False refl] update_advance[OF p False e] by (rule refl)
qed

text \<open>
  Claim C9. A call with \<open>deltaTime \<le> 0\<close>, or with no agents, returns the model unchanged.
  A call that advances returns, and every agent's new position is its old position plus
  its new velocity times \<open>min deltaTime 0.05\<close>; the call is the same as the call with
  \<open>min deltaTime 0.05\<close> itself, so nothing else of the caller's value is used.
\<close>

theorem update_noop_and_clamp:
  "(deltaTime \<le> 0 \<or> agents m = [] \<longrightarrow> update deltaTime m = Inr m) \<and>
   (0 < deltaTime \<and> agents m \<noteq> [] \<longrightarrow>
      (\<exists>m'. update deltaTime m = Inr m' \<and> length (agents m') = length (agents m) \<and>
         (\<forall>i<length (agents m).
            position (agents m' ! i)
              = add (position (agents m ! i))
                    (mult (velocity (agents m' ! i)) (min deltaTime 0.05)))) \<and>
      update deltaTime m = update (min deltaTime 0.05) m)"
proof (intro conjI impI)
  assume "deltaTime \<le> 0 \<or> agents m = []"
  then show "update deltaTime m = Inr m" by (rule update_noop)
next
  assume h: "0 < deltaTime \<and> agents m \<noteq> []"
  then have "0 < deltaTime" by simp
  then show "update deltaTime m = update (min deltaTime 0.05) m"
    by (rule update_clamped)
  from h have pos: "0 < deltaTime" and ne: "agents m \<noteq> []" by simp_all
  from update_result[OF pos ne] obtain store vs where
    up: "update deltaTime m
           = Inr (m\<lparr>agents := applyVelocities store vs (min deltaTime 0.05)\<rparr>)" and
    ph: "map physical store = map physical (map swapGoalIfNeeded (agents m))" and
    ls: "length store = length (agents m)" and lv: "length vs = length (agents m)"
    by blast
  let ?m' = "m\<lparr>agents := applyVelocities store vs (min deltaTime 0.05)\<rparr>"
  have len: "length (agents ?m') = length (agents m)"
    using ls lv by (simp add: applyVelocities_length)
  have "position (agents ?m' ! i)
          = add (position (agents m ! i)) (mult (velocity (agents ?m' ! i)) (min deltaTime 0.05))"
    if i: "i < length (agents m)" for i
  proof -
    from i have "i < length (map swapGoalIfNeeded (agents m))" by simp
    from physical_nth_fields(1)[OF ph this] i
    have ps: "position (store ! i) = position (agents m ! i)"
      by (simp add: swapGoalIfNeeded_fields)
    from i ls lv have nth: "agents ?m' ! i
        = (store ! i)\<lparr>velocity := vs ! i,
                       position := add (position (store ! i)) (mult (vs ! i) (min deltaTime 0.05))\<rparr>"
      by (simp add: applyVelocities_nth)
    show ?thesis unfolding nth using ps by simp
  qed
  with up len
  show "\<exists>m'. update deltaTime m = Inr m' \<and> length (agents m') = length (agents m) \<and>
         (\<forall>i<length (agents m).
            position (agents m' ! i)
              = add (position (agents m ! i))
                    (mult (velocity (agents m' ! i)) (min deltaTime 0.05)))"
    by blast
qed

text \<open>
  Two instances on the head-on scene: a call with \<open>deltaTime = 0\<close> changes nothing, and a
  call with \<open>deltaTime = 1\<close> moves each agent by its velocity times 0.05 only.
\<close>

theorem update_noop_and_clamp_witness:
  "update 0 headOnModel = Inr headOnModel
   \<and> 0 < (1 :: real) \<and> agents headOnModel \<noteq> []
   \<and> update 1 headOnModel
       = Inr (headOnModel\<lparr>agents :=
           [headOnA\<lparr>preferredVelocity := \<lparr>x = 80, y = 0\<rparr>, velocity := \<lparr>x = 80, y = 0\<rparr>,
                    position := \<lparr>x = 4, y = 0\<rparr>\<rparr>,
            headOnB\<lparr>preferredVelocity := \<lparr>x = - 80, y = 0\<rparr>, velocity := \<lparr>x = - 80, y = 0\<rparr>,
                    position := \<lparr>x = 28, y = 0\<rparr>\<rparr>]\<rparr>)
   \<and> \<lparr>x = 4, y = 0\<rparr> = add (position headOnA) (mult \<lparr>x = 80, y = 0\<rparr> (min 1 0.05))"
proof -
  have ne: "agents headOnModel \<noteq> []" by (simp add: headOnModel_def)
  have m: "min 1 (0.05 :: real) = 1 / 20" by simp
  from update_noop_and_clamp[of 0 headOnModel]
  have a: "update 0 headOnModel = Inr headOnModel" by simp
  from update_noop_and_clamp[of 1 headOnModel] ne
  have "update 1 headOnModel = update (min 1 0.05) headOnModel" by simp
  then have b: "update 1 headOnModel = update (1 / 20) headOnModel" by (simp only: m)
  have c: "\<lparr>x = 4, y = 0\<rparr> = add (position headOnA) (mult \<lparr>x = 80, y = 0\<rparr> (min 1 0.05))"
    by (simp add: headOnA_def add_def mult_def)
  from a b c ne headOn_update show ?thesis by simp
qed

lemma createCircleScenario_maxSpeed:
  assumes "\<forall>i. 0 \<le> rnd i"
  shows "\<forall>a \<in> set (agents (createCircleScenario rnd m)). 0 < preferredSpeed a \<and>
           preferredSpeed a \<le> maxSpeed a \<and> 0 < radius a"
proof -
  have "0 < 66 + 33 * rnd i \<and> 0 \<le> 33 * rnd i + 66" for i
    using assms[rule_format, of i] by simp
  then show ?thesis
    by (auto simp: createCircleScenario_def Let_def agentRadiusMeters_def pixelsPerMeter_def)
qed

text \<open>
  Claim C10 has no theorem. In this embedding \<open>update\<close> is a function of the model and
  \<open>deltaTime\<close>, so equal arguments give equal results by the logic itself, and the random
  draws are an argument of \<open>createCircleScenario\<close> alone because \<open>update\<close> and the
  functions it calls contain no call of \<open>Math.random\<close>. A statement of determinism would
  hold of any definition of \<open>update\<close>; what a tick reads and writes is the subject of
  the two-phase and the no-op statements.
\<close>

text \<open>
  The scenario depends on the random draws it is given: the first agent's preferred speed
  is \<open>(1.2 + draw * 0.6) * pixelsPerMeter\<close>, so different draws seed different agents.
\<close>

lemma createCircleScenario_first:
  assumes "width m \<noteq> 0" "height m \<noteq> 0"
  shows "preferredSpeed (agents (createCircleScenario rnd m) ! 0)
           = (1.2 + rnd 0 * 0.6) * pixelsPerMeter"
  using assms by (simp add: createCircleScenario_def Let_def DEFAULTS_agentCount_def)

lemma createCircleScenario_random:
  assumes "width m \<noteq> 0" "height m \<noteq> 0"
  shows "createCircleScenario (\<lambda>i. 0) m \<noteq> createCircleScenario (\<lambda>i. 1 / 2) m"
proof
  assume "createCircleScenario (\<lambda>i. 0) m = createCircleScenario (\<lambda>i. 1 / 2) m"
  then have "preferredSpeed (agents (createCircleScenario (\<lambda>i. 0) m) ! 0)
               = preferredSpeed (agents (createCircleScenario (\<lambda>i. 1 / 2) m) ! 0)"
    by simp
  then show False
    unfolding createCircleScenario_first[OF assms] by (simp add: pixelsPerMeter_def)
qed


lemma physical_speeds:
  assumes "map physical s1 = map physical s2" "i < length s2"
  shows "preferredSpeed (s1 ! i) = preferredSpeed (s2 ! i)"
proof -
  from assms have "length s1 = length s2" by (metis length_map)
  with assms have "physical (s1 ! i) = physical (s2 ! i)" by (metis nth_map)
  then have "preferredSpeed (physical (s1 ! i)) = preferredSpeed (physical (s2 ! i))" by simp
  then show ?thesis by (simp add: physical_def)
qed

lemma update_keeps_parameters:
  assumes "update deltaTime m = Inr m'"
  shows "length (agents m') = length (agents m) \<and>
         (\<forall>i<length (agents m).
            radius (agents m' ! i) = radius (agents m ! i) \<and>
            preferredSpeed (agents m' ! i) = preferredSpeed (agents m ! i) \<and>
            maxSpeed (agents m' ! i) = maxSpeed (agents m ! i))"
proof (cases "deltaTime \<le> 0 \<or> agents m = []")
  case True
  with assms have "m' = m" by (simp add: update_noop)
  then show ?thesis by simp
next
  case False
  then have pos: "0 < deltaTime" and ne: "agents m \<noteq> []" by simp_all
  from update_result[OF pos ne] assms obtain store vs where
    m': "m' = m\<lparr>agents := applyVelocities store vs (min deltaTime 0.05)\<rparr>" and
    ph: "map physical store = map physical (map swapGoalIfNeeded (agents m))" and
    ls: "length store = length (agents m)" and lv: "length vs = length (agents m)"
    by auto
  have len: "length (agents m') = length (agents m)"
    using ls lv by (simp add: m' applyVelocities_length)
  have "radius (agents m' ! i) = radius (agents m ! i) \<and>
            preferredSpeed (agents m' ! i) = preferredSpeed (agents m ! i) \<and>
            maxSpeed (agents m' ! i) = maxSpeed (agents m ! i)" if i: "i < length (agents m)" for i
  proof -
    from i have i': "i < length (map swapGoalIfNeeded (agents m))" by simp
    from physical_nth_fields(3,4)[OF ph i'] physical_speeds[OF ph i'] i
    have f: "maxSpeed (store ! i) = maxSpeed (agents m ! i)"
      "radius (store ! i) = radius (agents m ! i)"
      "preferredSpeed (store ! i) = preferredSpeed (agents m ! i)"
      by (simp_all add: swapGoalIfNeeded_fields swapGoalIfNeeded_def)
    from i ls lv have "agents m' ! i
        = (store ! i)\<lparr>velocity := vs ! i,
                       position := add (position (store ! i)) (mult (vs ! i) (min deltaTime 0.05))\<rparr>"
      by (simp add: m' applyVelocities_nth)
    with f show ?thesis by simp
  qed
  with len show ?thesis by blast
qed

lemma reachable_wellformed:
  "reachable m \<Longrightarrow>
     \<forall>a \<in> set (agents m). 0 < radius a \<and> 0 < preferredSpeed a \<and> preferredSpeed a \<le> maxSpeed a"
proof (induction rule: reachable.induct)
  case (constructed initialParams)
  then show ?case by (simp add: newRVOModel_def)
next
  case (resized m rnd w h)
  then show ?case
    using createCircleScenario_maxSpeed[of rnd] by (simp add: resize_def randomDraws_def)
next
  case (was_reset m rnd)
  then show ?case
    using createCircleScenario_maxSpeed[of rnd] by (simp add: reset_def randomDraws_def)
next
  case (configured m nextParams)
  then show ?case by (simp add: configure_def)
next
  case (updated m deltaTime m')
  from update_keeps_parameters[OF updated.hyps(2)] have
    len: "length (agents m') = length (agents m)" and
    same: "\<forall>i<length (agents m).
            radius (agents m' ! i) = radius (agents m ! i) \<and>
            preferredSpeed (agents m' ! i) = preferredSpeed (agents m ! i) \<and>
            maxSpeed (agents m' ! i) = maxSpeed (agents m ! i)"
    by simp_all
  show ?case
  proof
    fix a assume "a \<in> set (agents m')"
    then obtain i where i: "i < length (agents m')" and a: "a = agents m' ! i"
      by (metis in_set_conv_nth)
    from i len have "agents m ! i \<in> set (agents m)" by simp
    with updated.IH have "0 < radius (agents m ! i) \<and> 0 < preferredSpeed (agents m ! i) \<and>
        preferredSpeed (agents m ! i) \<le> maxSpeed (agents m ! i)" by blast
    with same i len a
    show "0 < radius a \<and> 0 < preferredSpeed a \<and> preferredSpeed a \<le> maxSpeed a" by simp
  qed
qed

lemma resize_agents:
  assumes "w \<noteq> 0" "h \<noteq> 0"
  shows "length (agents (resize rnd w h m)) = 32"
    "maxSpeed (agents (resize rnd w h m) ! 0) = (1.2 + rnd 0 * 0.6) * pixelsPerMeter * 1.25"
  using assms by (simp_all add: resize_def createCircleScenario_def Let_def DEFAULTS_agentCount_def)

text \<open>
  Claim C2. In every state an \<open>RVOModel\<close> can reach, whenever \<open>update\<close> advances the
  simulation (\<open>deltaTime > 0\<close>, at least one agent), it returns, it keeps every agent's
  maximum speed, and the magnitude of every agent's new velocity is at most the agent's
  maximum speed. No tolerance is needed over the reals.
\<close>

theorem update_velocity_bound:
  assumes "reachable m" and "0 < deltaTime" and "agents m \<noteq> []"
  shows "\<exists>m'. update deltaTime m = Inr m' \<and> reachable m' \<and>
           length (agents m') = length (agents m) \<and>
           (\<forall>i<length (agents m).
              maxSpeed (agents m' ! i) = maxSpeed (agents m ! i) \<and>
              mag (velocity (agents m' ! i)) \<le> maxSpeed (agents m' ! i))"
proof -
  from reachable_wellformed[OF assms(1)]
  have "\<forall>a \<in> set (agents m). 0 \<le> maxSpeed a" by fastforce
  from update_limits_velocity[OF assms(2,3) this] obtain m' where
    m': "update deltaTime m = Inr m'" "length (agents m') = length (agents m)"
      "\<forall>i<length (agents m).
              maxSpeed (agents m' ! i) = maxSpeed (agents m ! i) \<and>
              mag (velocity (agents m' ! i)) \<le> maxSpeed (agents m' ! i)"
    by blast
  from assms(1) m'(1) have "reachable m'" by (rule reachable.updated)
  with m' show ?thesis by blast
qed

text \<open>
  An instance: the scenario seeded on a canvas of 800 by 600 with every random draw 0.
  The first agent has maximum speed 82.5 and leaves the tick no faster.
\<close>

theorem update_velocity_bound_witness:
  "reachable (resize (\<lambda>i. 0) 800 600 (newRVOModel Map.empty))
   \<and> 0 < (1 / 20 :: real)
   \<and> agents (resize (\<lambda>i. 0) 800 600 (newRVOModel Map.empty)) \<noteq> []
   \<and> maxSpeed (agents (resize (\<lambda>i. 0) 800 600 (newRVOModel Map.empty)) ! 0) = 165 / 2
   \<and> (\<exists>m'. update (1 / 20) (resize (\<lambda>i. 0) 800 600 (newRVOModel Map.empty)) = Inr m'
         \<and> length (agents m') = 32
         \<and> mag (velocity (agents m' ! 0)) \<le> 165 / 2)"
proof -
  let ?M = "resize (\<lambda>i. 0) 800 600 (newRVOModel Map.empty)"
  have r: "reachable ?M"
    by (rule reachable.resized[OF reachable.constructed]) (simp add: randomDraws_def)
  have l: "length (agents ?M) = 32" by (rule resize_agents) simp_all
  then have ne: "agents ?M \<noteq> []" by auto
  have ms: "maxSpeed (agents ?M ! 0) = 165 / 2"
    by (subst resize_agents(2)) (simp_all add: pixelsPerMeter_def)
  have p: "0 < (1 / 20 :: real)" by simp
  from update_velocity_bound[OF r p ne] obtain m' where
    m': "update (1 / 20) ?M = Inr m'" "length (agents m') = length (agents ?M)"
      "\<forall>i<length (agents ?M).
              maxSpeed (agents m' ! i) = maxSpeed (agents ?M ! i) \<and>
              mag (velocity (agents m' ! i)) \<le> maxSpeed (agents m' ! i)"
    by blast
  from l have "0 < length (agents ?M)" by simp
  with m'(3) have "mag (velocity (agents m' ! 0)) \<le> maxSpeed (agents ?M ! 0)" by fastforce
  with m'(1,2) l ms have "update (1 / 20) ?M = Inr m' \<and> length (agents m') = 32
         \<and> mag (velocity (agents m' ! 0)) \<le> 165 / 2" by simp
  then have "\<exists>m'. update (1 / 20) ?M = Inr m' \<and> length (agents m') = 32
         \<and> mag (velocity (agents m' ! 0)) \<le> 165 / 2" ..
  with r p ne ms show ?thesis by blast
qed

text \<open>
  Claim C8. In a tick that advances, the first phase runs to completion over the agents in
  index order and, after any number \<open>k\<close> of agents, has changed no position and no
  velocity of the agent array (only preferred velocities are stored). The velocity it
  puts in the buffer for agent \<open>i\<close> is the one the per-agent solve returns on the array as
  it was before the phase, whatever was stored for the agents before \<open>i\<close>. Only then are
  the buffered velocities written and the positions integrated.
\<close>

theorem update_two_phase:
  assumes "0 < deltaTime" and "agents m \<noteq> []"
  shows "\<exists>store newVelocities.
           computeVelocities
               (buildNeighborTable (map swapGoalIfNeeded (agents m)) (neighborRadiusSqOf m))
               (invTimeHorizonOf m) (min deltaTime 0.05)
               [0 ..< length (agents m)] (map swapGoalIfNeeded (agents m)) []
             = Inr (store, newVelocities) \<and>
           update deltaTime m
             = Inr (m\<lparr>agents := applyVelocities store newVelocities (min deltaTime 0.05)\<rparr>) \<and>
           length newVelocities = length (agents m) \<and>
           (\<forall>i<length (agents m).
              (\<exists>s. solveAgent (map swapGoalIfNeeded (agents m))
                      (buildNeighborTable (map swapGoalIfNeeded (agents m)) (neighborRadiusSqOf m))
                      (invTimeHorizonOf m) (min deltaTime 0.05) i = Inr (s, newVelocities ! i)) \<and>
              velocity (applyVelocities store newVelocities (min deltaTime 0.05) ! i)
                = newVelocities ! i) \<and>
           (\<forall>k\<le>length (agents m).
              \<exists>store_k buffer_k.
                computeVelocities
                    (buildNeighborTable (map swapGoalIfNeeded (agents m)) (neighborRadiusSqOf m))
                    (invTimeHorizonOf m) (min deltaTime 0.05)
                    [0 ..< k] (map swapGoalIfNeeded (agents m)) []
                  = Inr (store_k, buffer_k) \<and>
                length buffer_k = k \<and>
                map position store_k = map position (agents m) \<and>
                map velocity store_k = map velocity (agents m))"
proof -
  let ?sw = "map swapGoalIfNeeded (agents m)"
  let ?tbl = "buildNeighborTable ?sw (neighborRadiusSqOf m)"
  let ?dt = "min deltaTime 0.05"
  from update_result[OF assms] obtain store vs where
    cv: "computeVelocities ?tbl (invTimeHorizonOf m) ?dt [0 ..< length (agents m)] ?sw []
           = Inr (store, vs)" and
    up: "update deltaTime m = Inr (m\<lparr>agents := applyVelocities store vs ?dt\<rparr>)" and
    ls: "length store = length (agents m)" and lv: "length vs = length (agents m)" and
    each: "\<forall>i<length (agents m).
             \<exists>s. solveAgent ?sw ?tbl (invTimeHorizonOf m) ?dt i = Inr (s, vs ! i)"
    by blast
  have vel: "velocity (applyVelocities store vs ?dt ! i) = vs ! i" if "i < length (agents m)" for i
    using that ls lv by (simp add: applyVelocities_nth)
  have pre: "\<exists>store_k buffer_k.
                computeVelocities ?tbl (invTimeHorizonOf m) ?dt [0 ..< k] ?sw []
                  = Inr (store_k, buffer_k) \<and>
                length buffer_k = k \<and>
                map position store_k = map position (agents m) \<and>
                map velocity store_k = map velocity (agents m)" if k: "k \<le> length (agents m)" for k
  proof -
    from k have idxs: "\<forall>i \<in> set [0 ..< k]. i < length ?sw" by simp
    have tb: "\<forall>i<length ?sw. \<forall>nb \<in> set (?tbl ! i). index nb < length ?sw"
      by (rule neighborTable_indices)
    from computeVelocities_result[OF idxs tb refl, of "invTimeHorizonOf m" ?dt "[]"]
    obtain sk bk where
      c: "computeVelocities ?tbl (invTimeHorizonOf m) ?dt [0 ..< k] ?sw [] = Inr (sk, bk)" and
      ph: "map physical sk = map physical ?sw" and lb: "length bk = k"
      by auto
    from ph have "map position (map physical sk) = map position (map physical ?sw)"
      "map velocity (map physical sk) = map velocity (map physical ?sw)" by simp_all
    then have "map position sk = map position (agents m)"
      "map velocity sk = map velocity (agents m)"
      by (simp_all add: comp_def physical_fields swapGoalIfNeeded_fields)
    with c lb show ?thesis by blast
  qed
  from cv up lv each vel pre show ?thesis by blast
qed

text \<open>
  An instance on the head-on scene: the buffer holds \<open>(80, 0)\<close> and \<open>(-80, 0)\<close>, and the
  second agent's velocity is what the solve returns on the array before the phase, in
  which the first agent still has its old velocity.
\<close>

theorem update_two_phase_witness:
  "0 < (1 / 20 :: real) \<and> agents headOnModel \<noteq> []
   \<and> computeVelocities
         (buildNeighborTable (map swapGoalIfNeeded (agents headOnModel))
            (neighborRadiusSqOf headOnModel))
         (invTimeHorizonOf headOnModel) (min (1 / 20) 0.05)
         [0 ..< length (agents headOnModel)] (map swapGoalIfNeeded (agents headOnModel)) []
       = Inr ([headOnA\<lparr>preferredVelocity := \<lparr>x = 80, y = 0\<rparr>\<rparr>,
               headOnB\<lparr>preferredVelocity := \<lparr>x = - 80, y = 0\<rparr>\<rparr>],
              [\<lparr>x = 80, y = 0\<rparr>, \<lparr>x = - 80, y = 0\<rparr>])
   \<and> map_sum id snd
         (solveAgent (map swapGoalIfNeeded (agents headOnModel))
            (buildNeighborTable (map swapGoalIfNeeded (agents headOnModel))
               (neighborRadiusSqOf headOnModel))
            (invTimeHorizonOf headOnModel) (min (1 / 20) 0.05) (Suc 0))
       = Inr \<lparr>x = - 80, y = 0\<rparr>"
proof -
  have h: "0 < (1 / 20 :: real)" "agents headOnModel \<noteq> []"
    by (simp_all add: headOnModel_def)
  have ags: "agents headOnModel = [headOnA, headOnB]" by (simp add: headOnModel_def)
  have u2: "[0 ..< length [headOnA, headOnB]] = [0, Suc 0]" by (simp add: upt_rec)
  have r2: "neighborRadiusSqOf headOnModel = 48400"
    by (simp add: neighborRadiusSqOf_def headOnModel_def DEFAULTS_neighborRadius_def
          pixelsPerMeter_def)
  have th: "invTimeHorizonOf headOnModel = 2 / 5"
    by (simp add: invTimeHorizonOf_def headOnModel_def DEFAULTS_timeHorizon_def)
  have dt: "min (1 / 20) (0.05 :: real) = 1 / 20" by simp
  have cv: "computeVelocities
              [[\<lparr>index = Suc 0, distSq = 1024\<rparr>], [\<lparr>index = 0, distSq = 1024\<rparr>]] (2 / 5) (1 / 20)
              [0, Suc 0] [headOnA, headOnB] []
            = Inr ([headOnA\<lparr>preferredVelocity := \<lparr>x = 80, y = 0\<rparr>\<rparr>,
                    headOnB\<lparr>preferredVelocity := \<lparr>x = - 80, y = 0\<rparr>\<rparr>],
                   [\<lparr>x = 80, y = 0\<rparr>, \<lparr>x = - 80, y = 0\<rparr>])"
    by (simp add: headOn_solveA headOn_solveB)
  from update_two_phase[OF h] obtain store vs where
    c: "computeVelocities
         (buildNeighborTable (map swapGoalIfNeeded (agents headOnModel))
            (neighborRadiusSqOf headOnModel))
         (invTimeHorizonOf headOnModel) (min (1 / 20) 0.05)
         [0 ..< length (agents headOnModel)] (map swapGoalIfNeeded (agents headOnModel)) []
          = Inr (store, vs)" and
    e: "\<forall>i<length (agents headOnModel).
          \<exists>s. solveAgent (map swapGoalIfNeeded (agents headOnModel))
            (buildNeighborTable (map swapGoalIfNeeded (agents headOnModel))
               (neighborRadiusSqOf headOnModel))
            (invTimeHorizonOf headOnModel) (min (1 / 20) 0.05) i = Inr (s, vs ! i)"
    by blast
  have c': "computeVelocities
         (buildNeighborTable (map swapGoalIfNeeded (agents headOnModel))
            (neighborRadiusSqOf headOnModel))
         (invTimeHorizonOf headOnModel) (min (1 / 20) 0.05)
         [0 ..< length (agents headOnModel)] (map swapGoalIfNeeded (agents headOnModel)) []
          = Inr ([headOnA\<lparr>preferredVelocity := \<lparr>x = 80, y = 0\<rparr>\<rparr>,
                    headOnB\<lparr>preferredVelocity := \<lparr>x = - 80, y = 0\<rparr>\<rparr>],
                   [\<lparr>x = 80, y = 0\<rparr>, \<lparr>x = - 80, y = 0\<rparr>])"
    unfolding ags headOn_swap r2 th dt headOn_table u2 by (rule cv)
  with c have vs: "vs = [\<lparr>x = 80, y = 0\<rparr>, \<lparr>x = - 80, y = 0\<rparr>]" by simp
  from e obtain s where
    "solveAgent (map swapGoalIfNeeded (agents headOnModel))
            (buildNeighborTable (map swapGoalIfNeeded (agents headOnModel))
               (neighborRadiusSqOf headOnModel))
            (invTimeHorizonOf headOnModel) (min (1 / 20) 0.05) (Suc 0) = Inr (s, vs ! Suc 0)"
    unfolding ags by auto
  then have "map_sum id snd
         (solveAgent (map swapGoalIfNeeded (agents headOnModel))
            (buildNeighborTable (map swapGoalIfNeeded (agents headOnModel))
               (neighborRadiusSqOf headOnModel))
            (invTimeHorizonOf headOnModel) (min (1 / 20) 0.05) (Suc 0))
       = Inr \<lparr>x = - 80, y = 0\<rparr>"
    by (simp add: vs)
  with h c' show ?thesis by blast
qed

text \<open>
  Claim C1 fails on the code. In the head-on scene the agents are at rest, 32 apart, with
  radii summing to 30.8. The constraint built for the first agent is the line through
  \<open>(0.24, 0)\<close> with direction \<open>(0, -1)\<close>; the side the solver permits is \<open>x \<ge> 0.24\<close>, towards the
  other agent, so the preferred velocity \<open>(80, 0)\<close> is accepted unchanged (and symmetrically
  for the second agent). After one tick of 0.05 the agents are 24 apart.
\<close>

theorem headOn_collides:
  "dist_v (position headOnA) (position headOnB) = 32
   \<and> radius headOnA + radius headOnB = 154 / 5
   \<and> velocity headOnA = \<lparr>x = 0, y = 0\<rparr> \<and> velocity headOnB = \<lparr>x = 0, y = 0\<rparr>
   \<and> target headOnA = \<lparr>x = 400, y = 0\<rparr> \<and> target headOnB = \<lparr>x = - 368, y = 0\<rparr>
   \<and> update (1 / 20) headOnModel
       = Inr (headOnModel\<lparr>agents :=
           [headOnA\<lparr>preferredVelocity := \<lparr>x = 80, y = 0\<rparr>, velocity := \<lparr>x = 80, y = 0\<rparr>,
                    position := \<lparr>x = 4, y = 0\<rparr>\<rparr>,
            headOnB\<lparr>preferredVelocity := \<lparr>x = - 80, y = 0\<rparr>, velocity := \<lparr>x = - 80, y = 0\<rparr>,
                    position := \<lparr>x = 28, y = 0\<rparr>\<rparr>]\<rparr>)
   \<and> dist_v \<lparr>x = 4, y = 0\<rparr> \<lparr>x = 28, y = 0\<rparr> = 24
   \<and> (24 :: real) < radius headOnA + radius headOnB - 1
   \<and> appendAgentConstraint headOnA headOnB [] (2 / 5) (1 / 20)
       = [\<lparr>point = \<lparr>x = 6 / 25, y = 0\<rparr>, direction = \<lparr>x = 0, y = - 1\<rparr>\<rparr>]
   \<and> satisfies \<lparr>point = \<lparr>x = 6 / 25, y = 0\<rparr>, direction = \<lparr>x = 0, y = - 1\<rparr>\<rparr> \<lparr>x = 80, y = 0\<rparr>
   \<and> violates \<lparr>point = \<lparr>x = 6 / 25, y = 0\<rparr>, direction = \<lparr>x = 0, y = - 1\<rparr>\<rparr> \<lparr>x = 0, y = 0\<rparr>"
proof -
  have a: "dist_v (position headOnA) (position headOnB) = 32"
    by (simp add: dist_v_def headOnA_def headOnB_def sub_def mag_axis)
  have b: "radius headOnA + radius headOnB = 154 / 5"
    "velocity headOnA = \<lparr>x = 0, y = 0\<rparr>" "velocity headOnB = \<lparr>x = 0, y = 0\<rparr>"
    "target headOnA = \<lparr>x = 400, y = 0\<rparr>" "target headOnB = \<lparr>x = - 368, y = 0\<rparr>"
    by (simp_all add: headOnA_def headOnB_def target_def)
  have c: "dist_v \<lparr>x = 4, y = 0\<rparr> \<lparr>x = 28, y = 0\<rparr> = 24"
    by (simp add: dist_v_def sub_def mag_axis)
  have d: "(24 :: real) < radius headOnA + radius headOnB - 1" by (simp add: b)
  have pa: "headOnA = headOnA\<lparr>preferredVelocity := preferredVelocity headOnA\<rparr>"
    "headOnB = headOnB\<lparr>preferredVelocity := preferredVelocity headOnB\<rparr>" by simp_all
  have e: "appendAgentConstraint headOnA headOnB [] (2 / 5) (1 / 20)
       = [\<lparr>point = \<lparr>x = 6 / 25, y = 0\<rparr>, direction = \<lparr>x = 0, y = - 1\<rparr>\<rparr>]"
    by (subst pa(1), subst pa(2)) (rule headOn_lineA)
  have f: "satisfies \<lparr>point = \<lparr>x = 6 / 25, y = 0\<rparr>, direction = \<lparr>x = 0, y = - 1\<rparr>\<rparr> \<lparr>x = 80, y = 0\<rparr>"
    "violates \<lparr>point = \<lparr>x = 6 / 25, y = 0\<rparr>, direction = \<lparr>x = 0, y = - 1\<rparr>\<rparr> \<lparr>x = 0, y = 0\<rparr>"
    by (simp_all add: satisfies_def violates_def det_def sub_def)
  from a b c d e f headOn_update show ?thesis by simp
qed

subsection \<open>The fallback\<close>

lemma fold_push_map_filter:
  "fold (\<lambda>j acc. case f j of None \<Rightarrow> acc | Some l \<Rightarrow> acc @ [l]) js acc
     = acc @ List.map_filter f js"
  by (induction js arbitrary: acc) (simp_all add: List.map_filter_simps split: option.splits)

lemma buildProjLines_eq:
  "buildProjLines lines numObstLines i
     = take numObstLines lines
         @ List.map_filter (\<lambda>j. projectLine (lines ! i) (lines ! j)) [numObstLines ..< i]"
proof -
  have "(\<lambda>l :: OrcaLine. \<lparr>point = point l, direction = direction l\<rparr>) = (\<lambda>l. l)"
    by (rule ext) simp
  then have "map (\<lambda>l. \<lparr>point = point l, direction = direction l\<rparr>) (take numObstLines lines)
          = take numObstLines lines"
    by simp
  then show ?thesis
    by (simp add: buildProjLines_def fold_push_map_filter)
qed

lemma projectLine_same_direction:
  "\<bar>det (direction line) (direction other)\<bar> \<le> EPSILON \<Longrightarrow>
     dot (direction line) (direction other) > 0 \<Longrightarrow> projectLine line other = None"
  by (simp add: projectLine_def)

lemma projectLine_opposing:
  "\<bar>det (direction line) (direction other)\<bar> \<le> EPSILON \<Longrightarrow>
     dot (direction line) (direction other) \<le> 0 \<Longrightarrow>
     projectLine line other
       = Some \<lparr>point = mult (add (point line) (point other)) 0.5,
                direction = normalize_v (sub (direction other) (direction line))\<rparr>"
  by (simp add: projectLine_def)

lemma projectLine_crossing:
  assumes "\<bar>det (direction line) (direction other)\<bar> > EPSILON"
  shows "projectLine line other
       = Some \<lparr>point = pointAt line (det (direction other) (sub (point line) (point other))
                                       / det (direction line) (direction other)),
                direction = normalize_v (sub (direction other) (direction line))\<rparr>"
  using assms by (simp add: projectLine_def pointAt_def)

lemma crossing_on_both:
  assumes "det (direction line) (direction other) \<noteq> 0"
  shows "det (direction line)
           (sub (pointAt line (det (direction other) (sub (point line) (point other))
                                / det (direction line) (direction other))) (point line)) = 0"
    and "det (direction other)
           (sub (pointAt line (det (direction other) (sub (point line) (point other))
                                / det (direction line) (direction other))) (point other)) = 0"
proof -
  let ?D = "det (direction line) (direction other)"
  let ?N = "det (direction other) (sub (point line) (point other))"
  show "det (direction line) (sub (pointAt line (?N / ?D)) (point line)) = 0"
    by (simp add: det_def sub_def pointAt_def add_def mult_def)
  have "det (direction other) (sub (pointAt line t) (point other)) = ?N - t * ?D" for t
    by (simp add: det_def sub_def pointAt_def add_def mult_def algebra_simps)
  then show "det (direction other) (sub (pointAt line (?N / ?D)) (point other)) = 0"
    using assms by simp
qed

lemma lp3Loop_step:
  assumes "i < length lines"
    and "det (direction (lines ! i)) (sub (point (lines ! i)) result) > distance"
  shows "lp3Loop lines numObstLines rad i result distance
           = (case linearProgram2 (buildProjLines lines numObstLines i) rad
                     (perp (direction (lines ! i))) True of
                Inl e \<Rightarrow> Inl e
              | Inr (lineFail, lp2Result) \<Rightarrow>
                  lp3Loop lines numObstLines rad (i + 1)
                    (if lineFail < length (buildProjLines lines numObstLines i) then result
                     else lp2Result)
                    (det (direction (lines ! i))
                       (sub (point (lines ! i))
                          (if lineFail < length (buildProjLines lines numObstLines i) then result
                           else lp2Result))))"
  using assms
  by (simp add: lp3Loop.simps[of lines numObstLines rad i result distance] Let_def
           split: sum.splits prod.splits)

lemma lp3Loop_keep:
  assumes "i < length lines"
    and "\<not> det (direction (lines ! i)) (sub (point (lines ! i)) result) > distance"
  shows "lp3Loop lines numObstLines rad i result distance
           = lp3Loop lines numObstLines rad (i + 1) result distance"
  using assms
  by (simp add: lp3Loop.simps[of lines numObstLines rad i result distance] Let_def)

lemma lp3Loop_end:
  "\<not> i < length lines \<Longrightarrow> lp3Loop lines numObstLines rad i result distance = Inr result"
  by (simp add: lp3Loop.simps[of lines numObstLines rad i result distance])

text \<open>
  Claim C7, as amended. For a violating line \<open>L = lines ! i\<close> the fallback pairs \<open>L\<close> with every
  earlier line, in order. A pair whose directions have cross product at most \<open>EPSILON\<close> in
  absolute value is parallel: when the two directions point the same way (positive dot
  product) the pair contributes no line at all; otherwise (opposing directions) the new
  point is the midpoint of the two lines' points. A pair that is not parallel contributes
  the intersection point of the two lines, which lies on both. Every contributed line has
  as direction the normalized difference of the earlier line's direction and the direction
  of \<open>L\<close>. The inner solve is \<open>linearProgram2\<close> on the contributed lines in
  direction-optimization mode along \<open>perp\<close> of the direction of \<open>L\<close>; its result replaces the
  candidate unless it reports a failing line.
\<close>

theorem linearProgram3_projection:
  "buildProjLines lines 0 i
     = List.map_filter (\<lambda>j. projectLine (lines ! i) (lines ! j)) [0 ..< i] \<and>
   (\<bar>det (direction line) (direction other)\<bar> \<le> EPSILON \<and>
      dot (direction line) (direction other) > 0 \<longrightarrow> projectLine line other = None) \<and>
   (\<bar>det (direction line) (direction other)\<bar> \<le> EPSILON \<and>
      dot (direction line) (direction other) \<le> 0 \<longrightarrow>
        projectLine line other
          = Some \<lparr>point = mult (add (point line) (point other)) 0.5,
                   direction = normalize_v (sub (direction other) (direction line))\<rparr>) \<and>
   (\<bar>det (direction line) (direction other)\<bar> > EPSILON \<longrightarrow>
      (\<exists>p. projectLine line other
             = Some \<lparr>point = p,
                      direction = normalize_v (sub (direction other) (direction line))\<rparr> \<and>
           p = pointAt line (det (direction other) (sub (point line) (point other))
                               / det (direction line) (direction other)) \<and>
           det (direction line) (sub p (point line)) = 0 \<and>
           det (direction other) (sub p (point other)) = 0)) \<and>
   (i < length lines \<and>
      det (direction (lines ! i)) (sub (point (lines ! i)) result) > distance \<longrightarrow>
        lp3Loop lines 0 rad i result distance
          = (case linearProgram2 (buildProjLines lines 0 i) rad
                    (perp (direction (lines ! i))) True of
               Inl e \<Rightarrow> Inl e
             | Inr (lineFail, lp2Result) \<Rightarrow>
                 lp3Loop lines 0 rad (i + 1)
                   (if lineFail < length (buildProjLines lines 0 i) then result else lp2Result)
                   (det (direction (lines ! i))
                      (sub (point (lines ! i))
                         (if lineFail < length (buildProjLines lines 0 i) then result
                          else lp2Result)))))"
proof (intro conjI impI)
  show "buildProjLines lines 0 i
          = List.map_filter (\<lambda>j. projectLine (lines ! i) (lines ! j)) [0 ..< i]"
    by (simp add: buildProjLines_eq)
next
  assume "\<bar>det (direction line) (direction other)\<bar> \<le> EPSILON \<and>
      dot (direction line) (direction other) > 0"
  then show "projectLine line other = None"
    by (simp add: projectLine_same_direction)
next
  assume "\<bar>det (direction line) (direction other)\<bar> \<le> EPSILON \<and>
      dot (direction line) (direction other) \<le> 0"
  then show "projectLine line other
          = Some \<lparr>point = mult (add (point line) (point other)) 0.5,
                   direction = normalize_v (sub (direction other) (direction line))\<rparr>"
    by (simp add: projectLine_opposing)
next
  assume h: "\<bar>det (direction line) (direction other)\<bar> > EPSILON"
  then have nz: "det (direction line) (direction other) \<noteq> 0" by (auto simp: EPSILON_def)
  from projectLine_crossing[OF h] crossing_on_both[OF nz]
  show "\<exists>p. projectLine line other
             = Some \<lparr>point = p,
                      direction = normalize_v (sub (direction other) (direction line))\<rparr> \<and>
           p = pointAt line (det (direction other) (sub (point line) (point other))
                               / det (direction line) (direction other)) \<and>
           det (direction line) (sub p (point line)) = 0 \<and>
           det (direction other) (sub p (point other)) = 0"
    by blast
next
  assume "i < length lines \<and>
      det (direction (lines ! i)) (sub (point (lines ! i)) result) > distance"
  then show "lp3Loop lines 0 rad i result distance
          = (case linearProgram2 (buildProjLines lines 0 i) rad
                    (perp (direction (lines ! i))) True of
               Inl e \<Rightarrow> Inl e
             | Inr (lineFail, lp2Result) \<Rightarrow>
                 lp3Loop lines 0 rad (i + 1)
                   (if lineFail < length (buildProjLines lines 0 i) then result else lp2Result)
                   (det (direction (lines ! i))
                      (sub (point (lines ! i))
                         (if lineFail < length (buildProjLines lines 0 i) then result
                          else lp2Result))))"
    by (simp add: lp3Loop_step)
qed

text \<open>
  The claim as stated gives a midpoint for parallel lines that are not opposing. The lines
  \<open>y = 0\<close> and \<open>y = 2\<close>, both with direction \<open>(1, 0)\<close>, are parallel and point the same way;
  the pair contributes no line, and the reduced set for the second line is empty.
\<close>

theorem linearProgram3_parallel_counterexample:
  "\<bar>det \<lparr>x = 1, y = 0\<rparr> \<lparr>x = 1, y = 0\<rparr>\<bar> \<le> EPSILON
   \<and> 0 < dot \<lparr>x = 1, y = 0\<rparr> \<lparr>x = 1, y = 0\<rparr>
   \<and> projectLine \<lparr>point = \<lparr>x = 0, y = 2\<rparr>, direction = \<lparr>x = 1, y = 0\<rparr>\<rparr>
                   \<lparr>point = \<lparr>x = 0, y = 0\<rparr>, direction = \<lparr>x = 1, y = 0\<rparr>\<rparr> = None
   \<and> buildProjLines [\<lparr>point = \<lparr>x = 0, y = 0\<rparr>, direction = \<lparr>x = 1, y = 0\<rparr>\<rparr>,
                      \<lparr>point = \<lparr>x = 0, y = 2\<rparr>, direction = \<lparr>x = 1, y = 0\<rparr>\<rparr>] 0 (Suc 0) = []"
proof -
  have a: "\<bar>det \<lparr>x = 1, y = 0\<rparr> \<lparr>x = 1, y = 0\<rparr>\<bar> \<le> EPSILON"
    "0 < dot \<lparr>x = 1, y = 0\<rparr> \<lparr>x = 1, y = 0\<rparr>"
    by (simp_all add: det_def dot_def EPSILON_def)
  have b: "projectLine \<lparr>point = \<lparr>x = 0, y = 2\<rparr>, direction = \<lparr>x = 1, y = 0\<rparr>\<rparr>
                   \<lparr>point = \<lparr>x = 0, y = 0\<rparr>, direction = \<lparr>x = 1, y = 0\<rparr>\<rparr> = None"
    by (rule projectLine_same_direction) (simp_all add: a)
  have "buildProjLines [\<lparr>point = \<lparr>x = 0, y = 0\<rparr>, direction = \<lparr>x = 1, y = 0\<rparr>\<rparr>,
                      \<lparr>point = \<lparr>x = 0, y = 2\<rparr>, direction = \<lparr>x = 1, y = 0\<rparr>\<rparr>] 0 (Suc 0) = []"
    by (simp add: buildProjLines_eq List.map_filter_simps b)
  with a b show ?thesis by simp
qed

text \<open>
  Instances of the theorem: the same pair contributes nothing; with the earlier line
  reversed it contributes the midpoint \<open>(0, 1)\<close>; the lines \<open>y = 2\<close> and \<open>x = 0\<close> contribute
  their intersection \<open>(0, 2)\<close>; and the fallback on the single violated line \<open>y = 2\<close> with
  radius 1 solves an empty reduced set along \<open>(0, 1)\<close>.
\<close>

theorem linearProgram3_projection_witness:
  "projectLine \<lparr>point = \<lparr>x = 0, y = 2\<rparr>, direction = \<lparr>x = 1, y = 0\<rparr>\<rparr>
               \<lparr>point = \<lparr>x = 0, y = 0\<rparr>, direction = \<lparr>x = 1, y = 0\<rparr>\<rparr> = None
   \<and> projectLine \<lparr>point = \<lparr>x = 0, y = 2\<rparr>, direction = \<lparr>x = 1, y = 0\<rparr>\<rparr>
               \<lparr>point = \<lparr>x = 0, y = 0\<rparr>, direction = \<lparr>x = - 1, y = 0\<rparr>\<rparr>
       = Some \<lparr>point = \<lparr>x = 0, y = 1\<rparr>, direction = \<lparr>x = - 1, y = 0\<rparr>\<rparr>
   \<and> projectLine \<lparr>point = \<lparr>x = 0, y = 2\<rparr>, direction = \<lparr>x = 1, y = 0\<rparr>\<rparr>
               \<lparr>point = \<lparr>x = 0, y = 0\<rparr>, direction = \<lparr>x = 0, y = 1\<rparr>\<rparr>
       = Some \<lparr>point = \<lparr>x = 0, y = 2\<rparr>,
                direction = normalize_v \<lparr>x = - 1, y = 1\<rparr>\<rparr>
   \<and> lp3Loop [\<lparr>point = \<lparr>x = 0, y = 2\<rparr>, direction = \<lparr>x = 1, y = 0\<rparr>\<rparr>] 0 1 0 \<lparr>x = 0, y = 0\<rparr> 0
       = Inr \<lparr>x = 0, y = 1\<rparr>"
proof -
  let ?L = "\<lparr>point = \<lparr>x = 0, y = 2\<rparr>, direction = \<lparr>x = 1, y = 0 :: real\<rparr>\<rparr>"
  let ?same = "\<lparr>point = \<lparr>x = 0, y = 0\<rparr>, direction = \<lparr>x = 1, y = 0 :: real\<rparr>\<rparr>"
  let ?opp = "\<lparr>point = \<lparr>x = 0, y = 0\<rparr>, direction = \<lparr>x = - 1, y = 0 :: real\<rparr>\<rparr>"
  let ?cross = "\<lparr>point = \<lparr>x = 0, y = 0\<rparr>, direction = \<lparr>x = 0, y = 1 :: real\<rparr>\<rparr>"
  have a: "projectLine ?L ?same = None"
    using linearProgram3_projection[where line = ?L and other = ?same]
    by (simp add: det_def dot_def EPSILON_def)
  have n: "normalize_v \<lparr>x = - 2, y = 0\<rparr> = \<lparr>x = - 1, y = 0\<rparr>"
    by (simp add: normalize_v_def mag_axis mult_def)
  have b: "projectLine ?L ?opp = Some \<lparr>point = \<lparr>x = 0, y = 1\<rparr>, direction = \<lparr>x = - 1, y = 0\<rparr>\<rparr>"
    using linearProgram3_projection[where line = ?L and other = ?opp]
    by (simp add: det_def dot_def EPSILON_def add_def mult_def sub_def n)
  have c: "projectLine ?L ?cross
             = Some \<lparr>point = \<lparr>x = 0, y = 2\<rparr>, direction = normalize_v \<lparr>x = - 1, y = 1\<rparr>\<rparr>"
    using linearProgram3_projection[where line = ?L and other = ?cross]
    by (simp add: det_def dot_def EPSILON_def add_def mult_def sub_def pointAt_def)
  have lp2: "linearProgram2 [] 1 (perp (direction ?L)) True = Inr (0, \<lparr>x = 0, y = 1\<rparr>)"
    by (simp add: linearProgram2_def lp2Loop_end perp_def mult_def)
  have pl: "buildProjLines [?L] 0 0 = []" by (simp add: buildProjLines_eq List.map_filter_simps)
  have v: "0 < length [?L] \<and> det (direction ([?L] ! 0)) (sub (point ([?L] ! 0)) \<lparr>x = 0, y = 0\<rparr>) > 0"
    by (simp add: det_def sub_def)
  from linearProgram3_projection[where lines = "[?L]" and i = 0 and result = "\<lparr>x = 0, y = 0\<rparr>"
         and distance = 0 and rad = 1] v
  have "lp3Loop [?L] 0 1 0 \<lparr>x = 0, y = 0\<rparr> 0
          = (case linearProgram2 (buildProjLines [?L] 0 0) 1 (perp (direction ([?L] ! 0))) True of
               Inl e \<Rightarrow> Inl e
             | Inr (lineFail, lp2Result) \<Rightarrow>
                 lp3Loop [?L] 0 1 (0 + 1)
                   (if lineFail < length (buildProjLines [?L] 0 0) then \<lparr>x = 0, y = 0\<rparr>
                    else lp2Result)
                   (det (direction ([?L] ! 0))
                      (sub (point ([?L] ! 0))
                         (if lineFail < length (buildProjLines [?L] 0 0) then \<lparr>x = 0, y = 0\<rparr>
                          else lp2Result))))"
    by blast
  also have "\<dots> = Inr \<lparr>x = 0, y = 1\<rparr>"
    unfolding pl using lp2 by (simp add: lp3Loop_end)
  finally have d: "lp3Loop [?L] 0 1 0 \<lparr>x = 0, y = 0\<rparr> 0 = Inr \<lparr>x = 0, y = 1\<rparr>" .
  from a b c d show ?thesis by simp
qed

end
